theory Spec2Isabelle
  imports Complex_Main "HOL-Library.Word"
begin

unbundle bit_operations_syntax

section \<open>Data model\<close>

type_synonym u8 = "8 word"
type_synonym u32 = "32 word"
type_synonym u64 = "64 word"

text \<open>
  The single-precision operations that \<^verbatim>\<open>MagicBeautify.cpp\<close> uses, as a parameter.
  The engine is translated once, over any carrier \<open>'f\<close> of float values; what a claim
  needs of the arithmetic is stated where it is needed. \<open>f_lit\<close> is a float literal
  (\<^verbatim>\<open>255.0f\<close>), \<open>f_of_int\<close> the conversion of an integer value, \<open>f_to_int\<close> the cast
  \<^verbatim>\<open>(int)x\<close>, \<open>f_le a b\<close> the comparison \<^verbatim>\<open>a <= b\<close> (also written \<^verbatim>\<open>b >= a\<close>) and
  \<open>f_eq\<close> the comparison \<^verbatim>\<open>==\<close>.
\<close>

record 'f fpu =
  f_lit :: "real \<Rightarrow> 'f"
  f_of_int :: "int \<Rightarrow> 'f"
  f_add :: "'f \<Rightarrow> 'f \<Rightarrow> 'f"
  f_sub :: "'f \<Rightarrow> 'f \<Rightarrow> 'f"
  f_mul :: "'f \<Rightarrow> 'f \<Rightarrow> 'f"
  f_div :: "'f \<Rightarrow> 'f \<Rightarrow> 'f"
  f_logf :: "'f \<Rightarrow> 'f"
  f_ceilf :: "'f \<Rightarrow> 'f"
  f_to_int :: "'f \<Rightarrow> int"
  f_le :: "'f \<Rightarrow> 'f \<Rightarrow> bool"
  f_eq :: "'f \<Rightarrow> 'f \<Rightarrow> bool"

text \<open>
  The idealised instance: real numbers, every operation exact, the cast to \<^verbatim>\<open>int\<close>
  truncating towards zero. It is the instance concrete runs are evaluated in.
\<close>

definition exact_fpu :: "real fpu" where
  "exact_fpu =
     \<lparr> f_lit = (\<lambda>q. q),
       f_of_int = (\<lambda>n. of_int n),
       f_add = (\<lambda>a b. a + b),
       f_sub = (\<lambda>a b. a - b),
       f_mul = (\<lambda>a b. a * b),
       f_div = (\<lambda>a b. a / b),
       f_logf = (\<lambda>a. ln a),
       f_ceilf = (\<lambda>a. of_int \<lceil>a\<rceil>),
       f_to_int = (\<lambda>a. if 0 \<le> a then \<lfloor>a\<rfloor> else \<lceil>a\<rceil>),
       f_le = (\<lambda>a b. a \<le> b),
       f_eq = (\<lambda>a b. a = b) \<rparr>"

text \<open>
  The struct \<^verbatim>\<open>ARGB\<close> (declared in \<^verbatim>\<open>bitmap/BitmapOperation.h\<close>, which is not among the
  sources): the four channel bytes, under the field names \<^verbatim>\<open>MagicBeautify.cpp\<close> uses.
\<close>

record ARGB =
  alpha :: u8
  red :: u8
  green :: u8
  blue :: u8

text \<open>
  The helpers of \<^verbatim>\<open>bitmap/BitmapOperation\<close> and \<^verbatim>\<open>bitmap/Conversion\<close> that the engine calls;
  their code is not among the sources, so the engine takes them as a parameter.
  \<open>RGBToYCbCr_pixel\<close> is the conversion of one ARGB word to its \<open>(Y, Cb, Cr)\<close> bytes;
  \<open>YCbCrToRGB_pixel\<close> takes the three bytes and the word the destination holds before
  the write, and gives the word it holds after.
\<close>

record bitmap_lib =
  convertIntToArgb :: "u32 \<Rightarrow> ARGB"
  convertArgbToInt :: "ARGB \<Rightarrow> u32"
  RGBToYCbCr_pixel :: "u32 \<Rightarrow> u8 \<times> u8 \<times> u8"
  YCbCrToRGB_pixel :: "u8 \<times> u8 \<times> u8 \<Rightarrow> u32 \<Rightarrow> u32"

definition clamp :: "int \<Rightarrow> int \<Rightarrow> int \<Rightarrow> int" where
  \<comment> \<open>\<^verbatim>\<open>#define clamp(x, minVal, maxVal) (std::max((minVal), std::min((maxVal), (x))))\<close>\<close>
  "clamp x minVal maxVal = max minVal (min maxVal x)"

text \<open>
  Modelled from the spec: \<^verbatim>\<open>BitmapOperation::convertIntToArgb\<close> and
  \<^verbatim>\<open>convertArgbToInt\<close> are missing from the sources. The spec (3, 4.2, glossary) has the
  word as A,R,G,B from the most significant byte, and the struct's field \<^verbatim>\<open>blue\<close> holding
  the second-highest byte, \<^verbatim>\<open>red\<close> the lowest.
\<close>

definition spec_convertIntToArgb :: "u32 \<Rightarrow> ARGB" where
  "spec_convertIntToArgb p =
     \<lparr> alpha = ucast (drop_bit 24 p), red = ucast p,
       green = ucast (drop_bit 8 p), blue = ucast (drop_bit 16 p) \<rparr>"

definition spec_convertArgbToInt :: "ARGB \<Rightarrow> u32" where
  "spec_convertArgbToInt c =
     push_bit 24 (ucast (alpha c)) OR push_bit 16 (ucast (blue c))
       OR push_bit 8 (ucast (green c)) OR ucast (red c)"

text \<open>
  Modelled from the spec: \<^verbatim>\<open>Conversion::RGBToYCbCr\<close> and \<^verbatim>\<open>Conversion::YCbCrToRGB\<close> are
  missing from the sources. The spec (4.1) gives the BT.601 full-range formulas with
  three-digit coefficients, rounded to the nearest integer and clamped to 0..255; the
  bytes r, g, b are bytes 2, 1, 0 of the word, and the inverse keeps the alpha byte of
  the destination. The coefficients are written in thousandths, so that
  \<open>(1000 * x + 500) div 1000\<close> is \<open>x\<close> rounded to the nearest integer.
\<close>

definition round1000 :: "int \<Rightarrow> int" where
  "round1000 x = (x + 500) div 1000"

definition to_u8 :: "int \<Rightarrow> u8" where
  "to_u8 x = word_of_int (clamp x 0 255)"

definition spec_RGBToYCbCr_pixel :: "u32 \<Rightarrow> u8 \<times> u8 \<times> u8" where
  "spec_RGBToYCbCr_pixel p =
     (let r = uint (ucast (drop_bit 16 p) :: u8);
          g = uint (ucast (drop_bit 8 p) :: u8);
          b = uint (ucast p :: u8)
      in (to_u8 (round1000 (299 * r + 587 * g + 114 * b)),
          to_u8 (round1000 (- 169 * r - 331 * g + 500 * b + 128000)),
          to_u8 (round1000 (500 * r - 419 * g - 81 * b + 128000))))"

definition spec_YCbCrToRGB_pixel :: "u8 \<times> u8 \<times> u8 \<Rightarrow> u32 \<Rightarrow> u32" where
  "spec_YCbCrToRGB_pixel ycc old =
     (case ycc of (y, cb, cr) \<Rightarrow>
        let Y = uint y; Cb = uint cb - 128; Cr = uint cr - 128;
            R = to_u8 (round1000 (1000 * Y + 1402 * Cr));
            G = to_u8 (round1000 (1000 * Y - 344 * Cb - 714 * Cr));
            B = to_u8 (round1000 (1000 * Y + 1772 * Cb))
        in push_bit 24 (drop_bit 24 old) OR push_bit 16 (ucast R) OR push_bit 8 (ucast G) OR ucast B)"

definition spec_lib :: bitmap_lib where
  "spec_lib =
     \<lparr> convertIntToArgb = spec_convertIntToArgb,
       convertArgbToInt = spec_convertArgbToInt,
       RGBToYCbCr_pixel = spec_RGBToYCbCr_pixel,
       YCbCrToRGB_pixel = spec_YCbCrToRGB_pixel \<rparr>"

text \<open>
  Modelled from the spec: the bulk operations \<^verbatim>\<open>Conversion::RGBToYCbCr(From, To, length)\<close>
  and \<^verbatim>\<open>Conversion::YCbCrToRGB(From, To, length)\<close> are missing from the sources. By the
  spec (4.1) the first writes, for each of the \<open>length\<close> pixels in scanline order, the
  three bytes Y, Cb, Cr contiguously; the second reads them back and rewrites each
  destination word. The engine's YCbCr buffer is allocated with exactly
  \<open>3 * pixelCount\<close> bytes, so the first conversion gives its whole contents.
\<close>

definition RGBToYCbCr :: "bitmap_lib \<Rightarrow> u32 list \<Rightarrow> nat \<Rightarrow> u8 list" where
  "RGBToYCbCr cv From n =
     concat (map (\<lambda>p. case RGBToYCbCr_pixel cv p of (y, cb, cr) \<Rightarrow> [y, cb, cr]) (take n From))"

definition YCbCrToRGB :: "bitmap_lib \<Rightarrow> u8 list \<Rightarrow> u32 list \<Rightarrow> nat \<Rightarrow> u32 list" where
  "YCbCrToRGB cv From To n =
     map (\<lambda>i. YCbCrToRGB_pixel cv (From ! (3 * i), From ! (3 * i + 1), From ! (3 * i + 2)) (To ! i))
       [0..<min n (length To)] @ drop n To"

text \<open>
  The pixel descriptor \<^verbatim>\<open>JniBitmap\<close> (declared in \<^verbatim>\<open>bitmap/JniBitmap.h\<close>, not among the
  sources): the fields the engine reads. A null pointer is \<open>None\<close>.
\<close>

record JniBitmap =
  bitmapInfo_width :: int
  bitmapInfo_height :: int
  jni_storedBitmapPixels :: "u32 list option"

datatype BeautyResult =
    BEAUTY_SUCCESS
  | BEAUTY_ERROR_NOT_INITIALIZED
  | BEAUTY_ERROR_SIZE_TOO_LARGE
  | BEAUTY_ERROR_SIZE_TOO_SMALL
  | BEAUTY_ERROR_INVALID_DATA
  | BEAUTY_ERROR_MEMORY_ALLOC
  | BEAUTY_ERROR_PROCESSING

fun status_code :: "BeautyResult \<Rightarrow> nat" where
  "status_code BEAUTY_SUCCESS = 0"
| "status_code BEAUTY_ERROR_NOT_INITIALIZED = 1"
| "status_code BEAUTY_ERROR_SIZE_TOO_LARGE = 2"
| "status_code BEAUTY_ERROR_SIZE_TOO_SMALL = 3"
| "status_code BEAUTY_ERROR_INVALID_DATA = 4"
| "status_code BEAUTY_ERROR_MEMORY_ALLOC = 5"
| "status_code BEAUTY_ERROR_PROCESSING = 6"

text \<open>
  How a call of \<^verbatim>\<open>initMagicBeautify\<close> ends: it returns a status, or a \<^verbatim>\<open>std::bad_alloc\<close>
  thrown outside its \<^verbatim>\<open>try\<close> block leaves it.
\<close>

datatype call_end = Returned BeautyResult | Threw_bad_alloc

text \<open>
  The members of class \<^verbatim>\<open>MagicBeautify\<close>. A buffer pointer is \<open>None\<close> when null and
  otherwise holds the contents of the buffer; \<open>storedBitmapPixels\<close> is the caller's
  buffer, which the engine writes through the pointer it keeps. Widths, heights and
  indices are C++ \<^verbatim>\<open>int\<close>; after the size check they are at most 2048 and their
  products at most 4000000, so \<open>int\<close> arithmetic never wraps.
\<close>

record 'f MagicBeautify =
  mInitialized :: bool
  mIntegralMatrix :: "u64 list option"
  mIntegralMatrixSqr :: "u64 list option"
  storedBitmapPixels :: "u32 list option"
  mImageData_rgb :: "u32 list option"
  mImageData_yuv :: "u8 list option"
  mSkinMatrix :: "u8 list option"
  mImageWidth :: int
  mImageHeight :: int
  mSmoothLevel :: 'f
  mWhitenLevel :: 'f

definition MAX_BEAUTY_DIMENSION :: int where "MAX_BEAUTY_DIMENSION = 2048"
definition MAX_BEAUTY_PIXELS :: int where "MAX_BEAUTY_PIXELS = 4000000"
definition MIN_BEAUTY_DIMENSION :: int where "MIN_BEAUTY_DIMENSION = 32"

section \<open>The engine controller\<close>

definition MagicBeautify_ctor :: "'f fpu \<Rightarrow> 'f MagicBeautify" where
  \<comment> \<open>The constructor \<^verbatim>\<open>MagicBeautify::MagicBeautify()\<close>.\<close>
  "MagicBeautify_ctor fp =
     \<lparr> mInitialized = False,
       mIntegralMatrix = None, mIntegralMatrixSqr = None,
       storedBitmapPixels = None, mImageData_rgb = None,
       mImageData_yuv = None, mSkinMatrix = None,
       mImageWidth = 0, mImageHeight = 0,
       mSmoothLevel = f_lit fp 0, mWhitenLevel = f_lit fp 0 \<rparr>"

definition freeAllMemory :: "'f MagicBeautify \<Rightarrow> 'f MagicBeautify" where
  "freeAllMemory e =
     e\<lparr> mIntegralMatrix := None, mIntegralMatrixSqr := None,
        mImageData_yuv := None, mSkinMatrix := None, mImageData_rgb := None \<rparr>"

definition isSizeSafe :: "int \<Rightarrow> int \<Rightarrow> bool" where
  "isSizeSafe width height =
     (if width < MIN_BEAUTY_DIMENSION \<or> height < MIN_BEAUTY_DIMENSION then False
      else if width > MAX_BEAUTY_DIMENSION \<or> height > MAX_BEAUTY_DIMENSION then False
      else if width * height > MAX_BEAUTY_PIXELS then False
      else True)"

text \<open>
  \<^verbatim>\<open>initSkinMatrix\<close>: the rule-based mask, one byte per pixel, read from the RGB copy.
\<close>

definition isSkin :: "ARGB \<Rightarrow> bool" where
  "isSkin RGB =
     (if uint (blue RGB) > 95 \<and> uint (green RGB) > 40 \<and> uint (red RGB) > 20 \<and>
         uint (blue RGB) - uint (red RGB) > 15 \<and> uint (blue RGB) - uint (green RGB) > 15
      then True
      else if uint (blue RGB) > 200 \<and> uint (green RGB) > 210 \<and> uint (red RGB) > 170 \<and>
         \<bar>uint (blue RGB) - uint (red RGB)\<bar> \<le> 15 \<and>
         uint (blue RGB) > uint (red RGB) \<and> uint (green RGB) > uint (red RGB)
      then True
      else False)"

definition skin_byte :: "bitmap_lib \<Rightarrow> u32 \<Rightarrow> u8" where
  "skin_byte cv p = (if isSkin (convertIntToArgb cv p) then 255 else 0)"

definition initSkinMatrix :: "bitmap_lib \<Rightarrow> 'f MagicBeautify \<Rightarrow> 'f MagicBeautify" where
  "initSkinMatrix cv e =
     (if mSkinMatrix e = None \<or> mImageData_rgb e = None then e
      else
        let rgb = the (mImageData_rgb e);
            pixelCount = mImageWidth e * mImageHeight e
        in e\<lparr> mSkinMatrix :=
               Some (fold (\<lambda>i sk. sk[i := skin_byte cv (rgb ! i)])
                       [0..<nat pixelCount] (the (mSkinMatrix e))) \<rparr>)"

text \<open>
  \<^verbatim>\<open>initIntegral\<close>: the two summed-area tables over the Y bytes, built row by row with
  the running column sums \<^verbatim>\<open>columnSum\<close> and \<^verbatim>\<open>columnSumSqr\<close>. All sums are \<^verbatim>\<open>uint64_t\<close>.
\<close>

record integral_state =
  columnSum :: "u64 list"
  columnSumSqr :: "u64 list"
  integralMatrix :: "u64 list"
  integralMatrixSqr :: "u64 list"

definition integral_first_row_step :: "u8 list \<Rightarrow> nat \<Rightarrow> integral_state \<Rightarrow> integral_state" where
  "integral_first_row_step yuv j s =
     (let y = yuv ! (j * 3);
          s1 = s\<lparr> columnSum := (columnSum s)[j := ucast y],
                  columnSumSqr := (columnSumSqr s)[j := ucast y * ucast y] \<rparr>
      in if j = 0
         then s1\<lparr> integralMatrix := (integralMatrix s1)[j := columnSum s1 ! j],
                  integralMatrixSqr := (integralMatrixSqr s1)[j := columnSumSqr s1 ! j] \<rparr>
         else s1\<lparr> integralMatrix :=
                    (integralMatrix s1)[j := integralMatrix s1 ! (j - 1) + columnSum s1 ! j],
                  integralMatrixSqr :=
                    (integralMatrixSqr s1)[j := integralMatrixSqr s1 ! (j - 1) + columnSumSqr s1 ! j] \<rparr>)"

definition integral_row_step :: "u8 list \<Rightarrow> nat \<Rightarrow> nat \<Rightarrow> nat \<Rightarrow> integral_state \<Rightarrow> integral_state" where
  "integral_row_step yuv w i j s =
     (let offset = i * w + j;
          y = yuv ! (offset * 3);
          s1 = s\<lparr> columnSum := (columnSum s)[j := columnSum s ! j + ucast y],
                  columnSumSqr := (columnSumSqr s)[j := columnSumSqr s ! j + ucast y * ucast y] \<rparr>
      in if j = 0
         then s1\<lparr> integralMatrix := (integralMatrix s1)[offset := columnSum s1 ! j],
                  integralMatrixSqr := (integralMatrixSqr s1)[offset := columnSumSqr s1 ! j] \<rparr>
         else s1\<lparr> integralMatrix :=
                    (integralMatrix s1)[offset := integralMatrix s1 ! (offset - 1) + columnSum s1 ! j],
                  integralMatrixSqr :=
                    (integralMatrixSqr s1)[offset :=
                       integralMatrixSqr s1 ! (offset - 1) + columnSumSqr s1 ! j] \<rparr>)"

definition integral_loops :: "u8 list \<Rightarrow> nat \<Rightarrow> nat \<Rightarrow> integral_state \<Rightarrow> integral_state" where
  "integral_loops yuv w h s =
     fold (\<lambda>i. fold (integral_row_step yuv w i) [0..<w]) [1..<h]
       (fold (integral_first_row_step yuv) [0..<w] s)"

text \<open>
  \<open>alloc k\<close> says whether the \<open>k\<close>-th \<^verbatim>\<open>new[]\<close> of a call of \<^verbatim>\<open>initMagicBeautify\<close>
  (counted from 0) succeeds; a failing one throws \<^verbatim>\<open>std::bad_alloc\<close>. The two column
  arrays of \<^verbatim>\<open>initIntegral\<close> are allocations 5 and 6, outside any \<^verbatim>\<open>try\<close>: \<open>None\<close> is the
  exception leaving \<^verbatim>\<open>initIntegral\<close>.
\<close>

definition initIntegral :: "(nat \<Rightarrow> bool) \<Rightarrow> 'f MagicBeautify \<Rightarrow> 'f MagicBeautify option" where
  "initIntegral alloc e =
     (if mIntegralMatrix e = None \<or> mIntegralMatrixSqr e = None \<or> mImageData_yuv e = None
      then Some e
      else if \<not> alloc 5 then None
      else if \<not> alloc 6 then None
      else
        let w = nat (mImageWidth e); h = nat (mImageHeight e);
            s = integral_loops (the (mImageData_yuv e)) w h
                  \<lparr> columnSum = replicate w 0, columnSumSqr = replicate w 0,
                    integralMatrix = the (mIntegralMatrix e),
                    integralMatrixSqr = the (mIntegralMatrixSqr e) \<rparr>
        in Some (e\<lparr> mIntegralMatrix := Some (integralMatrix s),
                    mIntegralMatrixSqr := Some (integralMatrixSqr s) \<rparr>))"

text \<open>
  The \<^verbatim>\<open>try\<close> block of \<^verbatim>\<open>initMagicBeautify\<close>: five allocations in order, each assigned to
  its member before the next. The flag is whether all succeeded. A fresh buffer's
  contents are indeterminate in C++ and written as zeros here; each buffer is
  overwritten in full before it is read.
\<close>

definition try_allocate :: "(nat \<Rightarrow> bool) \<Rightarrow> nat \<Rightarrow> 'f MagicBeautify \<Rightarrow> bool \<times> 'f MagicBeautify" where
  "try_allocate alloc pixelCount e =
     (if \<not> alloc 0 then (False, e)
      else
        let e1 = e\<lparr> mImageData_rgb := Some (replicate pixelCount 0) \<rparr> in
        if \<not> alloc 1 then (False, e1)
        else
          let e2 = e1\<lparr> mImageData_yuv := Some (replicate (pixelCount * 3) 0) \<rparr> in
          if \<not> alloc 2 then (False, e2)
          else
            let e3 = e2\<lparr> mSkinMatrix := Some (replicate pixelCount 0) \<rparr> in
            if \<not> alloc 3 then (False, e3)
            else
              let e4 = e3\<lparr> mIntegralMatrix := Some (replicate pixelCount 0) \<rparr> in
              if \<not> alloc 4 then (False, e4)
              else (True, e4\<lparr> mIntegralMatrixSqr := Some (replicate pixelCount 0) \<rparr>))"

definition initMagicBeautify ::
  "bitmap_lib \<Rightarrow> (nat \<Rightarrow> bool) \<Rightarrow> JniBitmap option \<Rightarrow> 'f MagicBeautify \<Rightarrow> call_end \<times> 'f MagicBeautify"
where
  "initMagicBeautify cv alloc jniBitmap e =
     (case jniBitmap of
        None \<Rightarrow> (Returned BEAUTY_ERROR_INVALID_DATA, e)
      | Some b \<Rightarrow>
          (case jni_storedBitmapPixels b of
             None \<Rightarrow> (Returned BEAUTY_ERROR_INVALID_DATA, e)
           | Some pixels \<Rightarrow>
               let width = bitmapInfo_width b; height = bitmapInfo_height b in
               if \<not> isSizeSafe width height then (Returned BEAUTY_ERROR_SIZE_TOO_LARGE, e)
               else
                 let e1 = (freeAllMemory e)\<lparr> storedBitmapPixels := Some pixels,
                                             mImageWidth := width, mImageHeight := height \<rparr>;
                     pixelCount = nat (width * height)
                 in
                   (case try_allocate alloc pixelCount e1 of
                      (False, e2) \<Rightarrow> (Returned BEAUTY_ERROR_MEMORY_ALLOC, freeAllMemory e2)
                    | (True, e2) \<Rightarrow>
                        let e3 = e2\<lparr> mImageData_rgb := Some (take pixelCount pixels) \<rparr>;
                            e4 = e3\<lparr> mImageData_yuv :=
                                      Some (RGBToYCbCr cv (the (mImageData_rgb e3)) pixelCount) \<rparr>;
                            e5 = initSkinMatrix cv e4
                        in
                          (case initIntegral alloc e5 of
                             None \<Rightarrow> (Threw_bad_alloc, e5)
                           | Some e6 \<Rightarrow> (Returned BEAUTY_SUCCESS, e6\<lparr> mInitialized := True \<rparr>)))))"

section \<open>Whitening\<close>

definition whiten_channel :: "'f fpu \<Rightarrow> 'f \<Rightarrow> 'f \<Rightarrow> u8 \<Rightarrow> u8" where
  \<comment> \<open>\<^verbatim>\<open>(uint8_t)clamp((int)(255.0f * (logf(div255(c) * (whitenlevel - 1.0f) + 1.0f) / a)), 0, 255)\<close>,
      with \<^verbatim>\<open>div255(x) = x * 0.003921568627451F\<close>.\<close>
  "whiten_channel fp whitenlevel a c =
     (let r = f_mul fp (f_lit fp 255)
                (f_div fp
                   (f_logf fp
                      (f_add fp
                         (f_mul fp (f_mul fp (f_of_int fp (uint c)) (f_lit fp 0.003921568627451))
                            (f_sub fp whitenlevel (f_lit fp 1)))
                         (f_lit fp 1)))
                   a)
      in word_of_int (clamp (f_to_int fp r) 0 255))"

definition whiten_pixel :: "'f fpu \<Rightarrow> bitmap_lib \<Rightarrow> 'f \<Rightarrow> u32 \<Rightarrow> u32" where
  "whiten_pixel fp cv whitenlevel p =
     (let a = f_logf fp whitenlevel;
          RGB = convertIntToArgb cv p
      in convertArgbToInt cv
           (RGB\<lparr> red := whiten_channel fp whitenlevel a (red RGB),
                 green := whiten_channel fp whitenlevel a (green RGB),
                 blue := whiten_channel fp whitenlevel a (blue RGB) \<rparr>))"

definition p_startWhiteSkin :: "'f fpu \<Rightarrow> bitmap_lib \<Rightarrow> 'f \<Rightarrow> 'f MagicBeautify \<Rightarrow> 'f MagicBeautify" where
  \<comment> \<open>The private \<^verbatim>\<open>MagicBeautify::_startWhiteSkin\<close>.\<close>
  "p_startWhiteSkin fp cv whitenlevel e =
     (if storedBitmapPixels e = None \<or> mImageData_rgb e = None then e
      else if f_eq fp (f_logf fp whitenlevel) (f_lit fp 0) then e
      else
        let rgb = the (mImageData_rgb e);
            pixelCount = mImageWidth e * mImageHeight e
        in e\<lparr> storedBitmapPixels :=
               Some (fold (\<lambda>i out. out[i := whiten_pixel fp cv whitenlevel (rgb ! i)])
                       [0..<nat pixelCount] (the (storedBitmapPixels e))) \<rparr>)"

section \<open>Smoothing\<close>

definition sat_query :: "u64 list \<Rightarrow> int \<Rightarrow> int \<Rightarrow> int \<Rightarrow> int \<Rightarrow> int \<Rightarrow> u64" where
  \<comment> \<open>The four-corner sum of \<^verbatim>\<open>_startSkinSmooth\<close> over a table \<open>S\<close> of row length \<open>w\<close>:
      \<^verbatim>\<open>S[idx4] + S[idx3] - S[idx2] - S[idx1]\<close>, in \<^verbatim>\<open>uint64_t\<close>.\<close>
  "sat_query S w iMin jMin iMax jMax =
     (let idx4 = iMax * w + jMax;
          idx3 = (iMin - 1) * w + (jMin - 1);
          idx2 = iMax * w + (jMin - 1);
          idx1 = (iMin - 1) * w + jMax
      in S ! nat idx4 + S ! nat idx3 - S ! nat idx2 - S ! nat idx1)"

definition smooth_radius :: "'f fpu \<Rightarrow> int \<Rightarrow> int \<Rightarrow> int" where
  \<comment> \<open>\<^verbatim>\<open>clamp((int)(std::max(mImageWidth, mImageHeight) * 0.02f), 2, 20)\<close>\<close>
  "smooth_radius fp w h = clamp (f_to_int fp (f_mul fp (f_of_int fp (max w h)) (f_lit fp 0.02))) 2 20"

definition smooth_pixel ::
  "'f fpu \<Rightarrow> u64 list \<Rightarrow> u64 list \<Rightarrow> u8 list \<Rightarrow> int \<Rightarrow> int \<Rightarrow> int \<Rightarrow> 'f \<Rightarrow> int \<Rightarrow> int \<Rightarrow> u8 list \<Rightarrow> u8 list"
where
  \<comment> \<open>The body of the pixel loop of \<^verbatim>\<open>_startSkinSmooth\<close> at row \<open>i\<close>, column \<open>j\<close>.\<close>
  "smooth_pixel fp I Q skin w h radius smoothlevel i j yuv =
     (let offset = i * w + j; pixelCount = w * h in
      if skin ! nat offset \<noteq> 255 then yuv
      else
        let iMax = min (i + radius) (h - 1);
            jMax = min (j + radius) (w - 1);
            iMin = max (i - radius) 1;
            jMin = max (j - radius) 1;
            area = (iMax - iMin + 1) * (jMax - jMin + 1)
        in
          if area \<le> 0 then yuv
          else
            let idx4 = iMax * w + jMax;
                idx3 = (iMin - 1) * w + (jMin - 1);
                idx2 = iMax * w + (jMin - 1);
                idx1 = (iMin - 1) * w + jMax
            in
              if idx4 \<ge> pixelCount \<or> idx3 < 0 \<or> idx2 \<ge> pixelCount \<or> idx1 < 0 then yuv
              else
                let m = f_div fp (f_of_int fp (uint (sat_query I w iMin jMin iMax jMax)))
                          (f_of_int fp area);
                    v = f_sub fp
                          (f_div fp (f_of_int fp (uint (sat_query Q w iMin jMin iMax jMax)))
                             (f_of_int fp area))
                          (f_mul fp m m);
                    k = f_div fp v (f_add fp v smoothlevel);
                    newY = f_add fp (f_sub fp m (f_mul fp k m))
                             (f_mul fp k (f_of_int fp (uint (yuv ! nat (offset * 3)))))
                in yuv[nat (offset * 3) := word_of_int (clamp (f_to_int fp (f_ceilf fp newY)) 0 255)])"

definition smooth_loops ::
  "'f fpu \<Rightarrow> u64 list \<Rightarrow> u64 list \<Rightarrow> u8 list \<Rightarrow> int \<Rightarrow> int \<Rightarrow> int \<Rightarrow> 'f \<Rightarrow> u8 list \<Rightarrow> u8 list"
where
  \<comment> \<open>\<^verbatim>\<open>for (int i = 1; i < mImageHeight - 1; i++) for (int j = 1; j < mImageWidth - 1; j++)\<close>\<close>
  "smooth_loops fp I Q skin w h radius smoothlevel yuv =
     fold (\<lambda>i. fold (smooth_pixel fp I Q skin w h radius smoothlevel i) [1..w - 2]) [1..h - 2] yuv"

text \<open>
  \<^verbatim>\<open>_startSkinSmooth\<close>. The source reads \<^verbatim>\<open>mImageData_rgb\<close> without a null check of its
  own; the pointer is null only together with the four it does check (they are
  allocated and freed together), and the model leaves the state alone there.
\<close>

definition p_startSkinSmooth :: "'f fpu \<Rightarrow> bitmap_lib \<Rightarrow> 'f \<Rightarrow> 'f MagicBeautify \<Rightarrow> 'f MagicBeautify" where
  "p_startSkinSmooth fp cv smoothlevel e =
     (if mIntegralMatrix e = None \<or> mIntegralMatrixSqr e = None \<or> mSkinMatrix e = None \<or>
         mImageData_yuv e = None \<or> storedBitmapPixels e = None
      then e
      else
        (case mImageData_rgb e of
           None \<Rightarrow> e
         | Some rgb \<Rightarrow>
             let w = mImageWidth e; h = mImageHeight e;
                 pixelCount = w * h;
                 yuv0 = RGBToYCbCr cv rgb (nat pixelCount);
                 radius = smooth_radius fp w h;
                 yuv1 = smooth_loops fp (the (mIntegralMatrix e)) (the (mIntegralMatrixSqr e))
                          (the (mSkinMatrix e)) w h radius smoothlevel yuv0
             in e\<lparr> mImageData_yuv := Some yuv1,
                    storedBitmapPixels :=
                      Some (YCbCrToRGB cv yuv1 (the (storedBitmapPixels e)) (nat pixelCount)) \<rparr>))"

section \<open>The effect entry points\<close>

definition p_startBeauty ::
  "'f fpu \<Rightarrow> bitmap_lib \<Rightarrow> 'f \<Rightarrow> 'f \<Rightarrow> 'f MagicBeautify \<Rightarrow> BeautyResult \<times> 'f MagicBeautify"
where
  \<comment> \<open>The private \<^verbatim>\<open>MagicBeautify::_startBeauty\<close>.\<close>
  "p_startBeauty fp cv smoothlevel whitenlevel e =
     (if \<not> mInitialized e then (BEAUTY_ERROR_NOT_INITIALIZED, e)
      else
        let e1 = (if f_le fp (f_lit fp 10) smoothlevel \<and> f_le fp smoothlevel (f_lit fp 510)
                  then p_startSkinSmooth fp cv smoothlevel (e\<lparr> mSmoothLevel := smoothlevel \<rparr>)
                  else e);
            e2 = (if f_le fp (f_lit fp 1) whitenlevel \<and> f_le fp whitenlevel (f_lit fp 5)
                  then p_startWhiteSkin fp cv whitenlevel (e1\<lparr> mWhitenLevel := whitenlevel \<rparr>)
                  else e1)
        in (BEAUTY_SUCCESS, e2))"

definition startSkinSmooth ::
  "'f fpu \<Rightarrow> bitmap_lib \<Rightarrow> 'f \<Rightarrow> 'f MagicBeautify \<Rightarrow> BeautyResult \<times> 'f MagicBeautify"
where
  "startSkinSmooth fp cv smoothlevel e = p_startBeauty fp cv smoothlevel (mWhitenLevel e) e"

definition startWhiteSkin ::
  "'f fpu \<Rightarrow> bitmap_lib \<Rightarrow> 'f \<Rightarrow> 'f MagicBeautify \<Rightarrow> BeautyResult \<times> 'f MagicBeautify"
where
  "startWhiteSkin fp cv whitenlevel e = p_startBeauty fp cv (mSmoothLevel e) whitenlevel e"

section \<open>Vocabulary of the properties\<close>

text \<open>
  The buffers of an initialised engine: none is null, and each has the length
  \<^verbatim>\<open>initMagicBeautify\<close> allocated it with (the output buffer the length the descriptor
  promises).
\<close>

definition buffers_ok :: "'f MagicBeautify \<Rightarrow> bool" where
  "buffers_ok e =
     (let n = nat (mImageWidth e * mImageHeight e) in
      0 \<le> mImageWidth e \<and> 0 \<le> mImageHeight e \<and>
      map_option length (mImageData_rgb e) = Some n \<and>
      map_option length (mImageData_yuv e) = Some (n * 3) \<and>
      map_option length (mSkinMatrix e) = Some n \<and>
      map_option length (mIntegralMatrix e) = Some n \<and>
      map_option length (mIntegralMatrixSqr e) = Some n \<and>
      map_option length (storedBitmapPixels e) = Some n)"

definition smooth_in_range :: "'f fpu \<Rightarrow> 'f \<Rightarrow> bool" where
  \<comment> \<open>The guard \<^verbatim>\<open>smoothlevel >= 10.0f && smoothlevel <= 510.0f\<close> of \<^verbatim>\<open>_startBeauty\<close>.\<close>
  "smooth_in_range fp smoothlevel =
     (f_le fp (f_lit fp 10) smoothlevel \<and> f_le fp smoothlevel (f_lit fp 510))"

definition whiten_in_range :: "'f fpu \<Rightarrow> 'f \<Rightarrow> bool" where
  \<comment> \<open>The guard \<^verbatim>\<open>whitenlevel >= 1.0f && whitenlevel <= 5.0f\<close> of \<^verbatim>\<open>_startBeauty\<close>.\<close>
  "whiten_in_range fp whitenlevel =
     (f_le fp (f_lit fp 1) whitenlevel \<and> f_le fp whitenlevel (f_lit fp 5))"

definition log_is_zero :: "'f fpu \<Rightarrow> 'f \<Rightarrow> bool" where
  \<comment> \<open>The early exit \<^verbatim>\<open>logf(whitenlevel) == 0.0f\<close> of \<^verbatim>\<open>_startWhiteSkin\<close>.\<close>
  "log_is_zero fp whitenlevel = f_eq fp (f_logf fp whitenlevel) (f_lit fp 0)"

definition all_ok :: "nat \<Rightarrow> bool" where
  \<comment> \<open>The allocator that never fails.\<close>
  "all_ok k = True"

definition uniform_bitmap :: "int \<Rightarrow> int \<Rightarrow> u32 \<Rightarrow> JniBitmap" where
  \<comment> \<open>A descriptor of a \<open>w\<close> by \<open>h\<close> image whose pixels all are \<open>p\<close>.\<close>
  "uniform_bitmap w h p =
     \<lparr> bitmapInfo_width = w, bitmapInfo_height = h,
       jni_storedBitmapPixels = Some (replicate (nat (w * h)) p) \<rparr>"

definition initialized_with :: "bitmap_lib \<Rightarrow> JniBitmap \<Rightarrow> real MagicBeautify" where
  \<comment> \<open>The engine right after construction and one \<^verbatim>\<open>initMagicBeautify\<close> on the descriptor,
      with no allocation failing.\<close>
  "initialized_with cv b = snd (initMagicBeautify cv all_ok (Some b) (MagicBeautify_ctor exact_fpu))"

text \<open>Concrete engines: 32 by 32 images of one colour, initialized with the spec's helpers.\<close>

definition gray32 :: "real MagicBeautify" where
  \<comment> \<open>Opaque mid-gray \<^verbatim>\<open>0xFF808080\<close>.\<close>
  "gray32 = initialized_with spec_lib (uniform_bitmap 32 32 0xFF808080)"

definition skin32 :: "real MagicBeautify" where
  \<comment> \<open>The skin tone \<^verbatim>\<open>0xFFC09078\<close> of the spec's scenario S3.\<close>
  "skin32 = initialized_with spec_lib (uniform_bitmap 32 32 0xFFC09078)"

definition red32 :: "real MagicBeautify" where
  \<comment> \<open>Opaque \<^verbatim>\<open>0xFFFF0000\<close>.\<close>
  "red32 = initialized_with spec_lib (uniform_bitmap 32 32 0xFFFF0000)"

text \<open>
  The sums the summed-area tables are measured against, written as the double loops
  they are: \<open>g\<close> gives the summand of the pixel at a flat offset, \<open>w\<close> is the row length.
  \<open>prefix_sum g w i j\<close> runs over rows \<open>0..i\<close> and columns \<open>0..j\<close>, \<open>rect_sum\<close> over rows
  \<open>i0..i1\<close> and columns \<open>j0..j1\<close>, all bounds inclusive. \<open>luma yuv off\<close> is the Y byte of
  the pixel at offset \<open>off\<close> of an interleaved YCbCr buffer.
\<close>

definition luma :: "u8 list \<Rightarrow> nat \<Rightarrow> u8" where
  "luma yuv off = yuv ! (off * 3)"

definition prefix_sum :: "(nat \<Rightarrow> 'a::comm_monoid_add) \<Rightarrow> nat \<Rightarrow> nat \<Rightarrow> nat \<Rightarrow> 'a" where
  "prefix_sum g w i j = (\<Sum>a\<leftarrow>[0..<Suc i]. \<Sum>b\<leftarrow>[0..<Suc j]. g (a * w + b))"

definition rect_sum :: "(nat \<Rightarrow> 'a::comm_monoid_add) \<Rightarrow> nat \<Rightarrow> nat \<Rightarrow> nat \<Rightarrow> nat \<Rightarrow> nat \<Rightarrow> 'a" where
  "rect_sum g w i0 j0 i1 j1 = (\<Sum>a\<leftarrow>[i0..<Suc i1]. \<Sum>b\<leftarrow>[j0..<Suc j1]. g (a * w + b))"

definition y_u64 :: "u8 list \<Rightarrow> nat \<Rightarrow> u64" where
  \<comment> \<open>\<^verbatim>\<open>y\<close> as the \<^verbatim>\<open>uint64_t\<close> that \<^verbatim>\<open>initIntegral\<close> adds to \<^verbatim>\<open>columnSum\<close>.\<close>
  "y_u64 yuv off = ucast (luma yuv off)"

definition y2_u64 :: "u8 list \<Rightarrow> nat \<Rightarrow> u64" where
  \<comment> \<open>\<^verbatim>\<open>(uint64_t)y * y\<close>, what \<^verbatim>\<open>initIntegral\<close> adds to \<^verbatim>\<open>columnSumSqr\<close>.\<close>
  "y2_u64 yuv off = ucast (luma yuv off) * ucast (luma yuv off)"

text \<open>
  For the proof about \<^verbatim>\<open>initIntegral\<close>: one table and its column sums, as the step of the
  loops acts on them, and the invariant of the loops. \<open>col_sum g w i b\<close> is the sum of
  column \<open>b\<close> over the rows before \<open>i\<close>, \<open>tbl_sum g w i j\<close> the sum over the rows before
  \<open>i\<close> and the columns before \<open>j\<close>. \<open>sat_inv g w i j\<close> holds when the rows before \<open>i\<close> and
  the cells of row \<open>i\<close> before column \<open>j\<close> are done.
\<close>

definition col_sum :: "(nat \<Rightarrow> u64) \<Rightarrow> nat \<Rightarrow> nat \<Rightarrow> nat \<Rightarrow> u64" where
  "col_sum g w i b = (\<Sum>a<i. g (a * w + b))"

definition tbl_sum :: "(nat \<Rightarrow> u64) \<Rightarrow> nat \<Rightarrow> nat \<Rightarrow> nat \<Rightarrow> u64" where
  "tbl_sum g w i j = (\<Sum>b<j. col_sum g w i b)"

definition sat_first_step :: "(nat \<Rightarrow> u64) \<Rightarrow> nat \<Rightarrow> u64 list \<times> u64 list \<Rightarrow> u64 list \<times> u64 list" where
  "sat_first_step g j s =
     (case s of (cs, T) \<Rightarrow>
        let cs1 = cs[j := g j]
        in (cs1, T[j := (if j = 0 then cs1 ! j else T ! (j - 1) + cs1 ! j)]))"

definition sat_row_step ::
  "(nat \<Rightarrow> u64) \<Rightarrow> nat \<Rightarrow> nat \<Rightarrow> nat \<Rightarrow> u64 list \<times> u64 list \<Rightarrow> u64 list \<times> u64 list"
where
  "sat_row_step g w i j s =
     (case s of (cs, T) \<Rightarrow>
        let offset = i * w + j;
            cs1 = cs[j := cs ! j + g offset]
        in (cs1, T[offset := (if j = 0 then cs1 ! j else T ! (offset - 1) + cs1 ! j)]))"

definition sat_inv :: "(nat \<Rightarrow> u64) \<Rightarrow> nat \<Rightarrow> nat \<Rightarrow> nat \<Rightarrow> nat \<Rightarrow> u64 list \<times> u64 list \<Rightarrow> bool" where
  "sat_inv g w n i j s =
     (case s of (cs, T) \<Rightarrow>
        length cs = w \<and> length T = n \<and>
        (\<forall>b<w. cs ! b = col_sum g w (if b < j then Suc i else i) b) \<and>
        (\<forall>a b. b < w \<longrightarrow> a < i \<or> (a = i \<and> b < j) \<longrightarrow> a * w + b < n \<longrightarrow>
           T ! (a * w + b) = tbl_sum g w (Suc a) (Suc b)))"

definition gray64 :: "real MagicBeautify" where
  \<comment> \<open>The 64 by 64 opaque mid-gray image of the spec's scenario S1.\<close>
  "gray64 = initialized_with spec_lib (uniform_bitmap 64 64 0xFF808080)"

text \<open>
  Sequences of calls on the engine. An \<open>Initialize\<close> carries the allocator's answers
  for that call and the descriptor.
\<close>

datatype 'f engine_op =
    Initialize "nat \<Rightarrow> bool" "JniBitmap option"
  | ApplyWhiten 'f
  | ApplySmooth 'f

fun run_op :: "'f fpu \<Rightarrow> bitmap_lib \<Rightarrow> 'f engine_op \<Rightarrow> 'f MagicBeautify \<Rightarrow> 'f MagicBeautify" where
  "run_op fp cv (Initialize alloc d) e = snd (initMagicBeautify cv alloc d e)"
| "run_op fp cv (ApplyWhiten l) e = snd (startWhiteSkin fp cv l e)"
| "run_op fp cv (ApplySmooth s) e = snd (startSkinSmooth fp cv s e)"

definition run_ops :: "'f fpu \<Rightarrow> bitmap_lib \<Rightarrow> 'f engine_op list \<Rightarrow> 'f MagicBeautify \<Rightarrow> 'f MagicBeautify" where
  "run_ops fp cv ops e = fold (run_op fp cv) ops e"

text \<open>
  What the interface promises of a descriptor: its pixel buffer, when there is one,
  holds \<open>width * height\<close> words.
\<close>

definition descriptor_ok :: "JniBitmap \<Rightarrow> bool" where
  "descriptor_ok b =
     (case jni_storedBitmapPixels b of
        None \<Rightarrow> True
      | Some pixels \<Rightarrow> length pixels = nat (bitmapInfo_width b * bitmapInfo_height b))"

fun op_ok :: "'f engine_op \<Rightarrow> bool" where
  "op_ok (Initialize alloc (Some b)) = descriptor_ok b"
| "op_ok _ = True"

definition alpha_byte :: "u32 \<Rightarrow> u8" where
  \<comment> \<open>The most significant byte of an ARGB word.\<close>
  "alpha_byte p = ucast (drop_bit 24 p)"

text \<open>
  What the spec says of the absent helpers and alpha: unpacking reads the alpha byte,
  packing writes it back, and the conversion to RGB keeps the destination's.
\<close>

definition lib_keeps_alpha :: "bitmap_lib \<Rightarrow> bool" where
  "lib_keeps_alpha cv =
     ((\<forall>p. alpha (convertIntToArgb cv p) = alpha_byte p) \<and>
      (\<forall>c. alpha_byte (convertArgbToInt cv c) = alpha c) \<and>
      (\<forall>ycc old. alpha_byte (YCbCrToRGB_pixel cv ycc old) = alpha_byte old))"

definition alpha_kept :: "'f MagicBeautify \<Rightarrow> bool" where
  \<comment> \<open>The invariant: where the engine holds an RGB copy and an output buffer, they have
      the length of the image and the same alpha bytes.\<close>
  "alpha_kept e =
     (case mImageData_rgb e of
        None \<Rightarrow> True
      | Some rgb \<Rightarrow>
          (case storedBitmapPixels e of
             None \<Rightarrow> True
           | Some out \<Rightarrow>
               length rgb = nat (mImageWidth e * mImageHeight e) \<and> length out = length rgb \<and>
               map alpha_byte out = map alpha_byte rgb))"

text \<open>
  Float arithmetic that is accurate: \<open>val a\<close> is the real number a float denotes
  (\<open>None\<close> for an infinity or a NaN). Every operation whose exact result is zero or in
  the range of the normalised single-precision numbers gives a float within the
  relative error \<open>eps\<close> of it; the cast to \<^verbatim>\<open>int\<close> truncates towards zero and the
  comparisons compare the denoted numbers. IEEE 754 single precision with a
  \<^verbatim>\<open>logf\<close> accurate to a few units in the last place is such an arithmetic for
  \<open>eps = 2\<^sup>-\<^sup>2\<^sup>0\<close>; so is \<open>exact_fpu\<close>, with no error at all.
\<close>

definition in_range :: "real \<Rightarrow> bool" where
  "in_range r = (r = 0 \<or> (1 / 2 ^ 126 \<le> \<bar>r\<bar> \<and> \<bar>r\<bar> \<le> 2 ^ 127))"

definition rep :: "('f \<Rightarrow> real option) \<Rightarrow> real \<Rightarrow> 'f \<Rightarrow> real \<Rightarrow> bool" where
  \<comment> \<open>\<open>a\<close> denotes a number within the relative error \<open>eps\<close> of \<open>r\<close>.\<close>
  "rep val eps a r = (case val a of None \<Rightarrow> False | Some x \<Rightarrow> \<bar>x - r\<bar> \<le> eps * \<bar>r\<bar>)"

definition fpu_accurate :: "'f fpu \<Rightarrow> ('f \<Rightarrow> real option) \<Rightarrow> real \<Rightarrow> bool" where
  "fpu_accurate fp val eps =
     ((\<forall>q. in_range q \<longrightarrow> rep val eps (f_lit fp q) q) \<and>
      (\<forall>n. in_range (of_int n) \<longrightarrow> rep val eps (f_of_int fp n) (of_int n)) \<and>
      (\<forall>a b x y. val a = Some x \<longrightarrow> val b = Some y \<longrightarrow> in_range (x + y) \<longrightarrow>
         rep val eps (f_add fp a b) (x + y)) \<and>
      (\<forall>a b x y. val a = Some x \<longrightarrow> val b = Some y \<longrightarrow> in_range (x - y) \<longrightarrow>
         rep val eps (f_sub fp a b) (x - y)) \<and>
      (\<forall>a b x y. val a = Some x \<longrightarrow> val b = Some y \<longrightarrow> in_range (x * y) \<longrightarrow>
         rep val eps (f_mul fp a b) (x * y)) \<and>
      (\<forall>a b x y. val a = Some x \<longrightarrow> val b = Some y \<longrightarrow> y \<noteq> 0 \<longrightarrow> in_range (x / y) \<longrightarrow>
         rep val eps (f_div fp a b) (x / y)) \<and>
      (\<forall>a x. val a = Some x \<longrightarrow> 0 < x \<longrightarrow> in_range (ln x) \<longrightarrow>
         rep val eps (f_logf fp a) (ln x)) \<and>
      (\<forall>a x. val a = Some x \<longrightarrow> \<bar>x\<bar> < 2 ^ 31 \<longrightarrow>
         f_to_int fp a = (if 0 \<le> x then \<lfloor>x\<rfloor> else \<lceil>x\<rceil>)) \<and>
      (\<forall>a b x y. val a = Some x \<longrightarrow> val b = Some y \<longrightarrow>
         f_le fp a b = (x \<le> y) \<and> f_eq fp a b = (x = y)))"

definition val_in :: "('f \<Rightarrow> real option) \<Rightarrow> 'f \<Rightarrow> real \<Rightarrow> real \<Rightarrow> bool" where
  \<comment> \<open>\<open>a\<close> denotes a number between \<open>lo\<close> and \<open>hi\<close>.\<close>
  "val_in val a lo hi = (case val a of None \<Rightarrow> False | Some x \<Rightarrow> lo \<le> x \<and> x \<le> hi)"

definition gray64_on :: "'f fpu \<Rightarrow> bitmap_lib \<Rightarrow> 'f MagicBeautify" where
  \<comment> \<open>The 64 by 64 mid-gray image of scenario S1, initialized on an engine constructed
      over the float arithmetic \<open>fp\<close>, with the helpers \<open>cv\<close>.\<close>
  "gray64_on fp cv =
     snd (initMagicBeautify cv all_ok (Some (uniform_bitmap 64 64 0xFF808080))
            (MagicBeautify_ctor fp))"

text \<open>
  The four-corner query as the spec words it (8, property 5), for a rectangle that may
  start at row 0 or column 0: \<open>S(a, b)\<close> is the cell of row \<open>a\<close> and column \<open>b\<close> of the
  unpadded table, and a corner in row \<open>-1\<close> or column \<open>-1\<close>, which is no cell of the
  table, stands for the empty sum. For \<open>1 \<le> i0\<close> and \<open>1 \<le> j0\<close> it is the expression
  \<open>sat_query\<close> that \<^verbatim>\<open>_startSkinSmooth\<close> evaluates.
\<close>

definition table_cell :: "u64 list \<Rightarrow> int \<Rightarrow> int \<Rightarrow> int \<Rightarrow> u64" where
  "table_cell S w a b = (if a < 0 \<or> b < 0 then 0 else S ! nat (a * w + b))"

definition four_corner_query :: "u64 list \<Rightarrow> int \<Rightarrow> int \<Rightarrow> int \<Rightarrow> int \<Rightarrow> int \<Rightarrow> u64" where
  "four_corner_query S w i0 j0 i1 j1 =
     table_cell S w i1 j1 + table_cell S w (i0 - 1) (j0 - 1)
       - table_cell S w i1 (j0 - 1) - table_cell S w (i0 - 1) j1"

text \<open>The effect operations: the calls that are neither an initialize nor a release.\<close>

fun is_effect :: "'f engine_op \<Rightarrow> bool" where
  "is_effect (Initialize alloc d) = False"
| "is_effect (ApplyWhiten l) = True"
| "is_effect (ApplySmooth s) = True"


section \<open>Basic facts\<close>

lemma freeAllMemory_idem: "freeAllMemory (freeAllMemory e) = freeAllMemory e"
  by (simp add: freeAllMemory_def)

lemma try_allocate_fail:
  assumes "\<not> (alloc 0 \<and> alloc 1 \<and> alloc 2 \<and> alloc 3 \<and> alloc 4)"
  shows "fst (try_allocate alloc n e) = False"
    and "freeAllMemory (snd (try_allocate alloc n e)) = freeAllMemory e"
  using assms by (auto simp: try_allocate_def Let_def freeAllMemory_def)

lemma init_unsafe_size:
  assumes "\<not> isSizeSafe w h"
  shows "initMagicBeautify cv alloc
           (Some \<lparr> bitmapInfo_width = w, bitmapInfo_height = h, jni_storedBitmapPixels = Some px \<rparr>) e
         = (Returned BEAUTY_ERROR_SIZE_TOO_LARGE, e)"
  using assms by (simp add: initMagicBeautify_def)

lemma init_alloc_fail:
  assumes "isSizeSafe w h" "\<not> (alloc 0 \<and> alloc 1 \<and> alloc 2 \<and> alloc 3 \<and> alloc 4)"
  shows "initMagicBeautify cv alloc
           (Some \<lparr> bitmapInfo_width = w, bitmapInfo_height = h, jni_storedBitmapPixels = Some px \<rparr>) e
         = (Returned BEAUTY_ERROR_MEMORY_ALLOC,
            (freeAllMemory e)\<lparr> storedBitmapPixels := Some px, mImageWidth := w, mImageHeight := h \<rparr>)"
proof -
  let ?e1 = "(freeAllMemory e)\<lparr> storedBitmapPixels := Some px, mImageWidth := w, mImageHeight := h \<rparr>"
  obtain ok e2 where t: "try_allocate alloc (nat (w * h)) ?e1 = (ok, e2)"
    by (cases "try_allocate alloc (nat (w * h)) ?e1")
  have "ok = False"
    using try_allocate_fail(1) [OF assms(2), of "nat (w * h)" ?e1] t by simp
  moreover have "freeAllMemory e2 = freeAllMemory ?e1"
    using try_allocate_fail(2) [OF assms(2), of "nat (w * h)" ?e1] t by simp
  moreover have "freeAllMemory ?e1 = ?e1"
    by (simp add: freeAllMemory_def)
  ultimately show ?thesis
    using assms(1) t by (simp add: initMagicBeautify_def Let_def)
qed

lemma fold_update_upt:
  "n \<le> length s \<Longrightarrow> fold (\<lambda>i s. s[i := f i]) [0..<n] s = map f [0..<n] @ drop n s"
proof (induction n)
  case 0
  then show ?case by simp
next
  case (Suc n)
  then have n: "n < length s" by simp
  have "fold (\<lambda>i s. s[i := f i]) [0..<Suc n] s = (map f [0..<n] @ drop n s)[n := f n]"
    using Suc by simp
  also have "\<dots> = map f [0..<n] @ (drop n s)[0 := f n]"
    by (simp add: list_update_append)
  also have "drop n s = s ! n # drop (Suc n) s"
    using n by (simp add: Cons_nth_drop_Suc)
  finally show ?case by simp
qed

lemma map_nth_fun: "map (\<lambda>i. f (xs ! i)) [0..<length xs] = map f xs"
proof -
  have "map (\<lambda>i. f (xs ! i)) [0..<length xs] = map f (map ((!) xs) [0..<length xs])"
    by simp
  also have "\<dots> = map f xs"
    by (simp only: map_nth)
  finally show ?thesis .
qed

lemma fold_update_nth:
  "length xs = n \<Longrightarrow> length s = n \<Longrightarrow>
   fold (\<lambda>i s. s[i := f (xs ! i)]) [0..<n] s = map f xs"
  using fold_update_upt [of n s "\<lambda>i. f (xs ! i)"] map_nth_fun [of f xs] by simp


lemma length_RGBToYCbCr: "length (RGBToYCbCr cv From n) = min n (length From) * 3"
proof -
  have "\<And>xs :: u32 list. length (concat (map (\<lambda>p. case RGBToYCbCr_pixel cv p of (y, cb, cr) \<Rightarrow> [y, cb, cr]) xs))
          = length xs * 3"
    by (induct_tac xs) (auto split: prod.splits)
  then show ?thesis by (simp add: RGBToYCbCr_def min.commute)
qed

lemma length_YCbCrToRGB: "length (YCbCrToRGB cv From To n) = length To"
  by (simp add: YCbCrToRGB_def)

lemma initSkinMatrix_fields:
  "mInitialized (initSkinMatrix cv e) = mInitialized e"
  "mIntegralMatrix (initSkinMatrix cv e) = mIntegralMatrix e"
  "mIntegralMatrixSqr (initSkinMatrix cv e) = mIntegralMatrixSqr e"
  "storedBitmapPixels (initSkinMatrix cv e) = storedBitmapPixels e"
  "mImageData_rgb (initSkinMatrix cv e) = mImageData_rgb e"
  "mImageData_yuv (initSkinMatrix cv e) = mImageData_yuv e"
  "mImageWidth (initSkinMatrix cv e) = mImageWidth e"
  "mImageHeight (initSkinMatrix cv e) = mImageHeight e"
  "mSmoothLevel (initSkinMatrix cv e) = mSmoothLevel e"
  "mWhitenLevel (initSkinMatrix cv e) = mWhitenLevel e"
  by (simp_all add: initSkinMatrix_def Let_def)

lemma initSkinMatrix_skin:
  assumes "mImageData_rgb e = Some rgb" "mSkinMatrix e = Some sk"
    and "length rgb = nat (mImageWidth e * mImageHeight e)"
    and "length sk = nat (mImageWidth e * mImageHeight e)"
  shows "mSkinMatrix (initSkinMatrix cv e) = Some (map (skin_byte cv) rgb)"
  using assms fold_update_nth [of rgb "nat (mImageWidth e * mImageHeight e)" sk "skin_byte cv"]
  by (simp add: initSkinMatrix_def Let_def)

lemma integral_first_row_step_lengths:
  "length (columnSum (integral_first_row_step yuv j s)) = length (columnSum s)"
  "length (columnSumSqr (integral_first_row_step yuv j s)) = length (columnSumSqr s)"
  "length (integralMatrix (integral_first_row_step yuv j s)) = length (integralMatrix s)"
  "length (integralMatrixSqr (integral_first_row_step yuv j s)) = length (integralMatrixSqr s)"
  by (simp_all add: integral_first_row_step_def Let_def)

lemma integral_row_step_lengths:
  "length (columnSum (integral_row_step yuv w i j s)) = length (columnSum s)"
  "length (columnSumSqr (integral_row_step yuv w i j s)) = length (columnSumSqr s)"
  "length (integralMatrix (integral_row_step yuv w i j s)) = length (integralMatrix s)"
  "length (integralMatrixSqr (integral_row_step yuv w i j s)) = length (integralMatrixSqr s)"
  by (simp_all add: integral_row_step_def Let_def)

lemma fold_keeps: "(\<And>x s. g (f x s) = g s) \<Longrightarrow> g (fold f xs s) = g s"
  by (induction xs arbitrary: s) simp_all

lemma integral_loops_lengths:
  "length (integralMatrix (integral_loops yuv w h s)) = length (integralMatrix s)"
  "length (integralMatrixSqr (integral_loops yuv w h s)) = length (integralMatrixSqr s)"
proof -
  have a: "\<And>i s. length (integralMatrix (fold (integral_row_step yuv w i) [0..<w] s)) = length (integralMatrix s)"
    by (rule fold_keeps) (simp add: integral_row_step_lengths)
  have b: "\<And>s. length (integralMatrix (fold (integral_first_row_step yuv) [0..<w] s)) = length (integralMatrix s)"
    by (rule fold_keeps) (simp add: integral_first_row_step_lengths)
  have "length (integralMatrix (integral_loops yuv w h s))
        = length (integralMatrix (fold (integral_first_row_step yuv) [0..<w] s))"
    unfolding integral_loops_def by (rule fold_keeps) (rule a)
  then show "length (integralMatrix (integral_loops yuv w h s)) = length (integralMatrix s)"
    by (simp add: b)
  have a: "\<And>i s. length (integralMatrixSqr (fold (integral_row_step yuv w i) [0..<w] s)) = length (integralMatrixSqr s)"
    by (rule fold_keeps) (simp add: integral_row_step_lengths)
  have b: "\<And>s. length (integralMatrixSqr (fold (integral_first_row_step yuv) [0..<w] s)) = length (integralMatrixSqr s)"
    by (rule fold_keeps) (simp add: integral_first_row_step_lengths)
  have "length (integralMatrixSqr (integral_loops yuv w h s))
        = length (integralMatrixSqr (fold (integral_first_row_step yuv) [0..<w] s))"
    unfolding integral_loops_def by (rule fold_keeps) (rule a)
  then show "length (integralMatrixSqr (integral_loops yuv w h s)) = length (integralMatrixSqr s)"
    by (simp add: b)
qed

lemma isSizeSafe_bounds:
  "isSizeSafe w h \<Longrightarrow> 32 \<le> w \<and> w \<le> 2048 \<and> 32 \<le> h \<and> h \<le> 2048 \<and> w * h \<le> 4000000"
  by (simp add: isSizeSafe_def MIN_BEAUTY_DIMENSION_def MAX_BEAUTY_DIMENSION_def
        MAX_BEAUTY_PIXELS_def split: if_splits)

text \<open>The state a successful \<^verbatim>\<open>initMagicBeautify\<close> leaves.\<close>

lemma init_success:
  fixes cv :: bitmap_lib and e :: "'f MagicBeautify"
  assumes safe: "isSizeSafe w h"
    and alloc: "alloc 0" "alloc 1" "alloc 2" "alloc 3" "alloc 4" "alloc 5" "alloc 6"
    and len: "length px = nat (w * h)"
  defines "r \<equiv> initMagicBeautify cv alloc
              (Some \<lparr> bitmapInfo_width = w, bitmapInfo_height = h, jni_storedBitmapPixels = Some px \<rparr>) e"
  shows "fst r = Returned BEAUTY_SUCCESS"
    and "mInitialized (snd r)"
    and "storedBitmapPixels (snd r) = Some px"
    and "mImageData_rgb (snd r) = Some px"
    and "mImageData_yuv (snd r) = Some (RGBToYCbCr cv px (nat (w * h)))"
    and "mSkinMatrix (snd r) = Some (map (skin_byte cv) px)"
    and "mImageWidth (snd r) = w" and "mImageHeight (snd r) = h"
    and "mSmoothLevel (snd r) = mSmoothLevel e" and "mWhitenLevel (snd r) = mWhitenLevel e"
    and "buffers_ok (snd r)"
    and "mIntegralMatrix (snd r)
         = Some (integralMatrix (integral_loops (RGBToYCbCr cv px (nat (w * h))) (nat w) (nat h)
                  \<lparr> columnSum = replicate (nat w) 0, columnSumSqr = replicate (nat w) 0,
                    integralMatrix = replicate (nat (w * h)) 0,
                    integralMatrixSqr = replicate (nat (w * h)) 0 \<rparr>))"
    and "mIntegralMatrixSqr (snd r)
         = Some (integralMatrixSqr (integral_loops (RGBToYCbCr cv px (nat (w * h))) (nat w) (nat h)
                  \<lparr> columnSum = replicate (nat w) 0, columnSumSqr = replicate (nat w) 0,
                    integralMatrix = replicate (nat (w * h)) 0,
                    integralMatrixSqr = replicate (nat (w * h)) 0 \<rparr>))"
proof -
  let ?n = "nat (w * h)"
  let ?e1 = "(freeAllMemory e)\<lparr> storedBitmapPixels := Some px, mImageWidth := w, mImageHeight := h \<rparr>"
  let ?e2 = "?e1\<lparr> mImageData_rgb := Some (replicate ?n 0),
               mImageData_yuv := Some (replicate (?n * 3) 0),
               mSkinMatrix := Some (replicate ?n 0),
               mIntegralMatrix := Some (replicate ?n 0),
               mIntegralMatrixSqr := Some (replicate ?n 0) \<rparr>"
  let ?e4 = "?e2\<lparr> mImageData_rgb := Some px, mImageData_yuv := Some (RGBToYCbCr cv px ?n) \<rparr>"
  let ?e5 = "initSkinMatrix cv ?e4"
  have ta: "try_allocate alloc ?n ?e1 = (True, ?e2)"
    using alloc by (simp add: try_allocate_def Let_def)
  have sk: "mSkinMatrix ?e5 = Some (map (skin_byte cv) px)"
    using initSkinMatrix_skin [of ?e4 px "replicate ?n 0" cv] by (simp add: len)
  obtain e6 where e6: "initIntegral alloc ?e5 = Some e6"
    and e6_def: "e6 = ?e5\<lparr> mIntegralMatrix := Some (integralMatrix (integral_loops (RGBToYCbCr cv px ?n) (nat w) (nat h)
                  \<lparr> columnSum = replicate (nat w) 0, columnSumSqr = replicate (nat w) 0,
                    integralMatrix = replicate ?n 0, integralMatrixSqr = replicate ?n 0 \<rparr>)),
               mIntegralMatrixSqr := Some (integralMatrixSqr (integral_loops (RGBToYCbCr cv px ?n) (nat w) (nat h)
                  \<lparr> columnSum = replicate (nat w) 0, columnSumSqr = replicate (nat w) 0,
                    integralMatrix = replicate ?n 0, integralMatrixSqr = replicate ?n 0 \<rparr>)) \<rparr>"
    using alloc by (simp add: initIntegral_def initSkinMatrix_fields Let_def)
  have r: "r = (Returned BEAUTY_SUCCESS, e6\<lparr> mInitialized := True \<rparr>)"
    using safe ta e6 len by (simp add: r_def initMagicBeautify_def Let_def)
  show "fst r = Returned BEAUTY_SUCCESS" "mInitialized (snd r)"
    by (simp_all add: r)
  show "storedBitmapPixels (snd r) = Some px" "mImageData_rgb (snd r) = Some px"
    "mImageData_yuv (snd r) = Some (RGBToYCbCr cv px (nat (w * h)))"
    "mImageWidth (snd r) = w" "mImageHeight (snd r) = h"
    "mSmoothLevel (snd r) = mSmoothLevel e" "mWhitenLevel (snd r) = mWhitenLevel e"
    by (simp_all add: r e6_def initSkinMatrix_fields freeAllMemory_def)
  show "mSkinMatrix (snd r) = Some (map (skin_byte cv) px)"
    using sk by (simp add: r e6_def)
  have "0 \<le> w" "0 \<le> h" using isSizeSafe_bounds [OF safe] by simp_all
  then show "buffers_ok (snd r)"
    using sk
    by (simp add: buffers_ok_def r e6_def initSkinMatrix_fields integral_loops_lengths
          length_RGBToYCbCr len)
  show "mIntegralMatrix (snd r)
         = Some (integralMatrix (integral_loops (RGBToYCbCr cv px (nat (w * h))) (nat w) (nat h)
                  \<lparr> columnSum = replicate (nat w) 0, columnSumSqr = replicate (nat w) 0,
                    integralMatrix = replicate (nat (w * h)) 0,
                    integralMatrixSqr = replicate (nat (w * h)) 0 \<rparr>))"
    "mIntegralMatrixSqr (snd r)
         = Some (integralMatrixSqr (integral_loops (RGBToYCbCr cv px (nat (w * h))) (nat w) (nat h)
                  \<lparr> columnSum = replicate (nat w) 0, columnSumSqr = replicate (nat w) 0,
                    integralMatrix = replicate (nat (w * h)) 0,
                    integralMatrixSqr = replicate (nat (w * h)) 0 \<rparr>))"
    by (simp_all add: r e6_def)
qed


lemma buffers_ok_levels [simp]:
  "buffers_ok (e\<lparr> mSmoothLevel := s \<rparr>) = buffers_ok e"
  "buffers_ok (e\<lparr> mWhitenLevel := l \<rparr>) = buffers_ok e"
  by (simp_all add: buffers_ok_def)

lemma buffers_okD:
  assumes "buffers_ok e"
  obtains rgb yuv skin I Q out where
    "mImageData_rgb e = Some rgb" "mImageData_yuv e = Some yuv" "mSkinMatrix e = Some skin"
    "mIntegralMatrix e = Some I" "mIntegralMatrixSqr e = Some Q" "storedBitmapPixels e = Some out"
    "length rgb = nat (mImageWidth e * mImageHeight e)"
    "length yuv = nat (mImageWidth e * mImageHeight e) * 3"
    "length skin = nat (mImageWidth e * mImageHeight e)"
    "length I = nat (mImageWidth e * mImageHeight e)"
    "length Q = nat (mImageWidth e * mImageHeight e)"
    "length out = nat (mImageWidth e * mImageHeight e)"
    "0 \<le> mImageWidth e" "0 \<le> mImageHeight e"
  using assms unfolding buffers_ok_def Let_def by auto

lemma p_startWhiteSkin_fields:
  "mInitialized (p_startWhiteSkin fp cv l e) = mInitialized e"
  "mIntegralMatrix (p_startWhiteSkin fp cv l e) = mIntegralMatrix e"
  "mIntegralMatrixSqr (p_startWhiteSkin fp cv l e) = mIntegralMatrixSqr e"
  "mImageData_rgb (p_startWhiteSkin fp cv l e) = mImageData_rgb e"
  "mImageData_yuv (p_startWhiteSkin fp cv l e) = mImageData_yuv e"
  "mSkinMatrix (p_startWhiteSkin fp cv l e) = mSkinMatrix e"
  "mImageWidth (p_startWhiteSkin fp cv l e) = mImageWidth e"
  "mImageHeight (p_startWhiteSkin fp cv l e) = mImageHeight e"
  "mSmoothLevel (p_startWhiteSkin fp cv l e) = mSmoothLevel e"
  "mWhitenLevel (p_startWhiteSkin fp cv l e) = mWhitenLevel e"
  by (simp_all add: p_startWhiteSkin_def Let_def)

lemma p_startWhiteSkin_log_zero:
  "log_is_zero fp l \<Longrightarrow> p_startWhiteSkin fp cv l e = e"
  by (simp add: p_startWhiteSkin_def log_is_zero_def)

lemma p_startWhiteSkin_out:
  assumes "buffers_ok e" "\<not> log_is_zero fp l"
  shows "storedBitmapPixels (p_startWhiteSkin fp cv l e)
         = Some (map (whiten_pixel fp cv l) (the (mImageData_rgb e)))"
proof -
  from assms(1) obtain rgb out where b: "mImageData_rgb e = Some rgb" "storedBitmapPixels e = Some out"
    "length rgb = nat (mImageWidth e * mImageHeight e)"
    "length out = nat (mImageWidth e * mImageHeight e)"
    by (rule buffers_okD)
  show ?thesis
    using assms(2) b fold_update_nth [of rgb "nat (mImageWidth e * mImageHeight e)" out "whiten_pixel fp cv l"]
    by (simp add: p_startWhiteSkin_def log_is_zero_def Let_def)
qed

lemma p_startWhiteSkin_buffers_ok:
  "buffers_ok e \<Longrightarrow> buffers_ok (p_startWhiteSkin fp cv l e)"
proof (cases "log_is_zero fp l")
  case True
  then show "buffers_ok e \<Longrightarrow> ?thesis" by (simp add: p_startWhiteSkin_log_zero)
next
  case False
  assume ok: "buffers_ok e"
  from ok obtain rgb where "mImageData_rgb e = Some rgb" "length rgb = nat (mImageWidth e * mImageHeight e)"
    by (rule buffers_okD)
  then show ?thesis
    using ok p_startWhiteSkin_out [OF ok False, of cv]
    by (simp add: buffers_ok_def p_startWhiteSkin_fields Let_def)
qed

lemma smooth_pixel_length:
  "length (smooth_pixel fp I Q skin w h radius s i j yuv) = length yuv"
  by (simp add: smooth_pixel_def Let_def)

lemma smooth_loops_length:
  "length (smooth_loops fp I Q skin w h radius s yuv) = length yuv"
proof -
  have "\<And>i y. length (fold (smooth_pixel fp I Q skin w h radius s i) [1..w - 2] y) = length y"
    by (rule fold_keeps) (rule smooth_pixel_length)
  then show ?thesis
    unfolding smooth_loops_def by (rule fold_keeps)
qed

lemma p_startSkinSmooth_fields:
  "mInitialized (p_startSkinSmooth fp cv s e) = mInitialized e"
  "mIntegralMatrix (p_startSkinSmooth fp cv s e) = mIntegralMatrix e"
  "mIntegralMatrixSqr (p_startSkinSmooth fp cv s e) = mIntegralMatrixSqr e"
  "mImageData_rgb (p_startSkinSmooth fp cv s e) = mImageData_rgb e"
  "mSkinMatrix (p_startSkinSmooth fp cv s e) = mSkinMatrix e"
  "mImageWidth (p_startSkinSmooth fp cv s e) = mImageWidth e"
  "mImageHeight (p_startSkinSmooth fp cv s e) = mImageHeight e"
  "mSmoothLevel (p_startSkinSmooth fp cv s e) = mSmoothLevel e"
  "mWhitenLevel (p_startSkinSmooth fp cv s e) = mWhitenLevel e"
  by (simp_all add: p_startSkinSmooth_def Let_def split: option.splits)

lemma p_startSkinSmooth_buffers_ok:
  assumes "buffers_ok e"
  shows "buffers_ok (p_startSkinSmooth fp cv s e)"
proof -
  from assms obtain rgb yuv skin I Q out where b:
    "mImageData_rgb e = Some rgb" "mImageData_yuv e = Some yuv" "mSkinMatrix e = Some skin"
    "mIntegralMatrix e = Some I" "mIntegralMatrixSqr e = Some Q" "storedBitmapPixels e = Some out"
    "length rgb = nat (mImageWidth e * mImageHeight e)"
    "length out = nat (mImageWidth e * mImageHeight e)"
    by (rule buffers_okD)
  show ?thesis
    using assms b
    by (simp add: buffers_ok_def p_startSkinSmooth_def Let_def smooth_loops_length
          length_RGBToYCbCr length_YCbCrToRGB)
qed

lemma isSizeSafe_32: "isSizeSafe 32 32"
  by (simp add: isSizeSafe_def MIN_BEAUTY_DIMENSION_def MAX_BEAUTY_DIMENSION_def MAX_BEAUTY_PIXELS_def)

lemma initialized_with_uniform:
  fixes cv :: bitmap_lib and p :: u32
  assumes "isSizeSafe w h"
  defines "e \<equiv> initialized_with cv (uniform_bitmap w h p)"
  shows "mInitialized e" and "buffers_ok e"
    and "storedBitmapPixels e = Some (replicate (nat (w * h)) p)"
    and "mImageData_rgb e = Some (replicate (nat (w * h)) p)"
    and "mSkinMatrix e = Some (replicate (nat (w * h)) (skin_byte cv p))"
    and "mImageWidth e = w" and "mImageHeight e = h"
    and "mSmoothLevel e = 0" and "mWhitenLevel e = 0"
  using init_success [OF assms(1), of all_ok "replicate (nat (w * h)) p" cv "MagicBeautify_ctor exact_fpu"]
  by (simp_all add: e_def initialized_with_def uniform_bitmap_def all_ok_def
        MagicBeautify_ctor_def exact_fpu_def)

lemma p_startBeauty_run:
  fixes fp :: "'f fpu" and cv :: bitmap_lib and s l :: 'f
  assumes "mInitialized e"
  defines "r \<equiv> p_startBeauty fp cv s l e"
  shows "fst r = BEAUTY_SUCCESS" and "mInitialized (snd r)"
    and "mImageData_rgb (snd r) = mImageData_rgb e"
    and "mSkinMatrix (snd r) = mSkinMatrix e"
    and "mIntegralMatrix (snd r) = mIntegralMatrix e"
    and "mIntegralMatrixSqr (snd r) = mIntegralMatrixSqr e"
    and "mImageWidth (snd r) = mImageWidth e" and "mImageHeight (snd r) = mImageHeight e"
    and "mSmoothLevel (snd r) = (if smooth_in_range fp s then s else mSmoothLevel e)"
    and "mWhitenLevel (snd r) = (if whiten_in_range fp l then l else mWhitenLevel e)"
    and "buffers_ok e \<Longrightarrow> buffers_ok (snd r)"
  using assms(1)
  by (simp_all add: r_def p_startBeauty_def Let_def p_startWhiteSkin_fields p_startSkinSmooth_fields
        smooth_in_range_def whiten_in_range_def p_startWhiteSkin_buffers_ok p_startSkinSmooth_buffers_ok)

text \<open>The output buffer after \<^verbatim>\<open>_startBeauty\<close>, by which of the two steps run.\<close>

lemma p_startBeauty_out_whitened:
  assumes "mInitialized e" "buffers_ok e" "whiten_in_range fp l" "\<not> log_is_zero fp l"
  shows "storedBitmapPixels (snd (p_startBeauty fp cv s l e))
         = Some (map (whiten_pixel fp cv l) (the (mImageData_rgb e)))"
proof -
  let ?e1 = "if smooth_in_range fp s then p_startSkinSmooth fp cv s (e\<lparr> mSmoothLevel := s \<rparr>) else e"
  have ok: "buffers_ok (?e1\<lparr> mWhitenLevel := l \<rparr>)"
    using assms(2) by (simp add: p_startSkinSmooth_buffers_ok)
  have rgb: "mImageData_rgb (?e1\<lparr> mWhitenLevel := l \<rparr>) = mImageData_rgb e"
    by (simp add: p_startSkinSmooth_fields)
  have "snd (p_startBeauty fp cv s l e) = p_startWhiteSkin fp cv l (?e1\<lparr> mWhitenLevel := l \<rparr>)"
    using assms(1,3) by (simp add: p_startBeauty_def Let_def smooth_in_range_def whiten_in_range_def)
  then show ?thesis
    using p_startWhiteSkin_out [OF ok assms(4), of cv] rgb by simp
qed

lemma p_startBeauty_out_not_whitened:
  assumes "mInitialized e" "\<not> whiten_in_range fp l \<or> log_is_zero fp l"
  shows "storedBitmapPixels (snd (p_startBeauty fp cv s l e))
         = storedBitmapPixels (if smooth_in_range fp s
                               then p_startSkinSmooth fp cv s (e\<lparr> mSmoothLevel := s \<rparr>) else e)"
  using assms
  by (auto simp: p_startBeauty_def Let_def smooth_in_range_def whiten_in_range_def
        p_startWhiteSkin_log_zero)


section \<open>Size gating\<close>

text \<open>
  C4. The claim: a descriptor with \<open>w < 32\<close> or \<open>h < 32\<close> gets \<open>SizeTooSmall\<close> (status 3).
  The code: \<^verbatim>\<open>isSizeSafe\<close> answers only yes or no, and \<^verbatim>\<open>initMagicBeautify\<close> returns
  \<^verbatim>\<open>BEAUTY_ERROR_SIZE_TOO_LARGE\<close> (status 2) for every size it refuses, a too small one
  included, leaving the engine as it was.
\<close>

theorem C4_refused_size_returns_too_large:
  assumes "\<not> isSizeSafe w h"
  shows "initMagicBeautify cv alloc
           (Some \<lparr> bitmapInfo_width = w, bitmapInfo_height = h, jni_storedBitmapPixels = Some px \<rparr>) e
         = (Returned BEAUTY_ERROR_SIZE_TOO_LARGE, e)
       \<and> status_code BEAUTY_ERROR_SIZE_TOO_LARGE = 2"
  using init_unsafe_size [OF assms] by simp

theorem C4_refused_size_witness:
  "\<not> isSizeSafe 16 16
   \<and> initMagicBeautify spec_lib all_ok
       (Some \<lparr> bitmapInfo_width = 16, bitmapInfo_height = 16,
               jni_storedBitmapPixels = Some (replicate 256 0xFF808080) \<rparr>)
       (MagicBeautify_ctor exact_fpu)
     = (Returned BEAUTY_ERROR_SIZE_TOO_LARGE, MagicBeautify_ctor exact_fpu)
   \<and> status_code BEAUTY_ERROR_SIZE_TOO_LARGE = 2"
proof -
  have h: "\<not> isSizeSafe 16 16"
    by (simp add: isSizeSafe_def MIN_BEAUTY_DIMENSION_def)
  show ?thesis
    using h C4_refused_size_returns_too_large [OF h, of spec_lib all_ok "replicate 256 0xFF808080"
        "MagicBeautify_ctor exact_fpu"]
    by simp
qed

section \<open>Allocation failure\<close>

text \<open>
  C5. The claim: when an allocation of \<^verbatim>\<open>initMagicBeautify\<close> fails, the call returns
  \<open>MemoryAlloc\<close>, releases what it allocated, and the initialized flag is false
  afterwards. The code: the \<^verbatim>\<open>catch\<close> branch frees the buffers and returns
  \<^verbatim>\<open>BEAUTY_ERROR_MEMORY_ALLOC\<close> but never stores \<^verbatim>\<open>false\<close> into \<^verbatim>\<open>mInitialized\<close>; on an
  engine that was initialized before, the flag stays true over freed buffers.
\<close>

theorem C5_alloc_failure_keeps_flag:
  assumes "mInitialized e" and "isSizeSafe w h"
    and "\<not> (alloc 0 \<and> alloc 1 \<and> alloc 2 \<and> alloc 3 \<and> alloc 4)"
  shows "(let r = initMagicBeautify cv alloc
                   (Some \<lparr> bitmapInfo_width = w, bitmapInfo_height = h,
                           jni_storedBitmapPixels = Some px \<rparr>) e
          in fst r = Returned BEAUTY_ERROR_MEMORY_ALLOC \<and> mInitialized (snd r) \<and>
             mImageData_rgb (snd r) = None \<and> mImageData_yuv (snd r) = None \<and>
             mSkinMatrix (snd r) = None \<and> mIntegralMatrix (snd r) = None \<and>
             mIntegralMatrixSqr (snd r) = None)"
  using assms(1) init_alloc_fail [OF assms(2,3), of cv px e]
  by (simp add: freeAllMemory_def)

theorem C5_alloc_failure_witness:
  "mInitialized (initialized_with spec_lib (uniform_bitmap 32 32 0xFF808080))
   \<and> isSizeSafe 32 32
   \<and> (let r = initMagicBeautify spec_lib (\<lambda>k. k \<noteq> 3)
                 (Some \<lparr> bitmapInfo_width = 32, bitmapInfo_height = 32,
                         jni_storedBitmapPixels = Some (replicate 1024 0xFF808080) \<rparr>)
                 (initialized_with spec_lib (uniform_bitmap 32 32 0xFF808080))
       in fst r = Returned BEAUTY_ERROR_MEMORY_ALLOC \<and> mInitialized (snd r) \<and>
          mImageData_rgb (snd r) = None \<and> mImageData_yuv (snd r) = None \<and>
          mSkinMatrix (snd r) = None \<and> mIntegralMatrix (snd r) = None \<and>
          mIntegralMatrixSqr (snd r) = None)"
proof -
  have i: "mInitialized (initialized_with spec_lib (uniform_bitmap 32 32 0xFF808080))"
    by (rule initialized_with_uniform(1) [OF isSizeSafe_32])
  have a: "\<not> ((0::nat) \<noteq> 3 \<and> (1::nat) \<noteq> 3 \<and> (2::nat) \<noteq> 3 \<and> (3::nat) \<noteq> 3 \<and> (4::nat) \<noteq> 3)"
    by simp
  show ?thesis
    using i isSizeSafe_32
      C5_alloc_failure_keeps_flag [OF i isSizeSafe_32, of "\<lambda>k. k \<noteq> 3" spec_lib
        "replicate 1024 0xFF808080", OF a]
    by simp
qed

section \<open>What the effects leave alone\<close>

lemma p_startBeauty_keeps:
  "mImageData_rgb (snd (p_startBeauty fp cv s l e)) = mImageData_rgb e"
  "mSkinMatrix (snd (p_startBeauty fp cv s l e)) = mSkinMatrix e"
  "mIntegralMatrix (snd (p_startBeauty fp cv s l e)) = mIntegralMatrix e"
  "mIntegralMatrixSqr (snd (p_startBeauty fp cv s l e)) = mIntegralMatrixSqr e"
  by (simp_all add: p_startBeauty_def Let_def p_startWhiteSkin_fields p_startSkinSmooth_fields)

section \<open>Whitening and smoothing in sequence\<close>

lemma exact_in_range:
  "whiten_in_range exact_fpu l = (1 \<le> l \<and> l \<le> 5)"
  "smooth_in_range exact_fpu s = (10 \<le> s \<and> s \<le> 510)"
  "log_is_zero exact_fpu l = (ln l = 0)"
  by (simp_all add: whiten_in_range_def smooth_in_range_def log_is_zero_def exact_fpu_def)

lemma uniform32_facts:
  fixes p :: u32
  defines "e \<equiv> initialized_with spec_lib (uniform_bitmap 32 32 p)"
  shows "mInitialized e" and "buffers_ok e"
    and "storedBitmapPixels e = Some (replicate 1024 p)"
    and "mImageData_rgb e = Some (replicate 1024 p)"
    and "mSkinMatrix e = Some (replicate 1024 (skin_byte spec_lib p))"
    and "mImageWidth e = 32" and "mImageHeight e = 32"
    and "mSmoothLevel e = 0" and "mWhitenLevel e = 0"
  using initialized_with_uniform [OF isSizeSafe_32, of spec_lib p]
  by (simp_all add: e_def)

lemma gray32_facts:
  "mInitialized gray32" "buffers_ok gray32"
  "storedBitmapPixels gray32 = Some (replicate 1024 0xFF808080)"
  "mImageData_rgb gray32 = Some (replicate 1024 0xFF808080)"
  "mSkinMatrix gray32 = Some (replicate 1024 (skin_byte spec_lib 0xFF808080))"
  "mImageWidth gray32 = 32" "mImageHeight gray32 = 32"
  "mSmoothLevel gray32 = 0" "mWhitenLevel gray32 = 0"
  unfolding gray32_def by (rule uniform32_facts)+

lemma skin32_facts:
  "mInitialized skin32" "buffers_ok skin32"
  "storedBitmapPixels skin32 = Some (replicate 1024 0xFFC09078)"
  "mImageData_rgb skin32 = Some (replicate 1024 0xFFC09078)"
  "mSkinMatrix skin32 = Some (replicate 1024 (skin_byte spec_lib 0xFFC09078))"
  "mImageWidth skin32 = 32" "mImageHeight skin32 = 32"
  "mSmoothLevel skin32 = 0" "mWhitenLevel skin32 = 0"
  unfolding skin32_def by (rule uniform32_facts)+

lemma red32_facts:
  "mInitialized red32" "buffers_ok red32"
  "storedBitmapPixels red32 = Some (replicate 1024 0xFFFF0000)"
  "mImageData_rgb red32 = Some (replicate 1024 0xFFFF0000)"
  "mSkinMatrix red32 = Some (replicate 1024 (skin_byte spec_lib 0xFFFF0000))"
  "mImageWidth red32 = 32" "mImageHeight red32 = 32"
  "mSmoothLevel red32 = 0" "mWhitenLevel red32 = 0"
  unfolding red32_def by (rule uniform32_facts)+

lemma startWhiteSkin_state:
  assumes "mInitialized e" "buffers_ok e" "whiten_in_range fp l"
  shows "mInitialized (snd (startWhiteSkin fp cv l e))"
    and "buffers_ok (snd (startWhiteSkin fp cv l e))"
    and "mWhitenLevel (snd (startWhiteSkin fp cv l e)) = l"
    and "mImageData_rgb (snd (startWhiteSkin fp cv l e)) = mImageData_rgb e"
    and "mImageWidth (snd (startWhiteSkin fp cv l e)) = mImageWidth e"
    and "mImageHeight (snd (startWhiteSkin fp cv l e)) = mImageHeight e"
  using assms p_startBeauty_run [OF assms(1), of fp cv "mSmoothLevel e" l]
  by (simp_all add: startWhiteSkin_def)

text \<open>
  C1. The claim: a smoothing call after a whitening call overwrites the whitening on
  interior skin pixels with the smoothed reconstruction. The code: \<^verbatim>\<open>startSkinSmooth\<close>
  hands the stored whiten level to \<^verbatim>\<open>_startBeauty\<close>, which whitens after it has smoothed.
  After \<^verbatim>\<open>startWhiteSkin\<close> at a level that passes the range check and has a non-zero
  logarithm, and a \<^verbatim>\<open>startSkinSmooth\<close> at a level in range, every pixel of the output,
  whatever its position and skin byte, holds the whitened value of the RGB copy: the
  output is the one the whitening call left.
\<close>

theorem C1_smooth_after_whiten_keeps_whitening:
  assumes "mInitialized e" and "buffers_ok e"
    and "whiten_in_range fp l" and "\<not> log_is_zero fp l"
    and "smooth_in_range fp sigma"
    and "i < nat (mImageWidth e * mImageHeight e)"
  shows "the (storedBitmapPixels (snd (startSkinSmooth fp cv sigma (snd (startWhiteSkin fp cv l e))))) ! i
           = whiten_pixel fp cv l (the (mImageData_rgb e) ! i) \<and>
         storedBitmapPixels (snd (startSkinSmooth fp cv sigma (snd (startWhiteSkin fp cv l e))))
           = storedBitmapPixels (snd (startWhiteSkin fp cv l e))"
proof -
  let ?e1 = "snd (startWhiteSkin fp cv l e)"
  note st = startWhiteSkin_state [OF assms(1-3), of cv]
  from assms(2) obtain rgb where rgb: "mImageData_rgb e = Some rgb"
    "length rgb = nat (mImageWidth e * mImageHeight e)"
    by (rule buffers_okD)
  have a: "storedBitmapPixels ?e1 = Some (map (whiten_pixel fp cv l) rgb)"
    using p_startBeauty_out_whitened [OF assms(1-4), of cv "mSmoothLevel e"] rgb
    by (simp add: startWhiteSkin_def)
  have h: "whiten_in_range fp (mWhitenLevel ?e1)" "\<not> log_is_zero fp (mWhitenLevel ?e1)"
    using assms(3,4) by (simp_all add: st(3))
  have b: "storedBitmapPixels (snd (startSkinSmooth fp cv sigma ?e1))
           = Some (map (whiten_pixel fp cv l) rgb)"
    using p_startBeauty_out_whitened [OF st(1,2) h, of cv sigma] rgb
    by (simp add: startSkinSmooth_def st(3,4))
  show ?thesis
    using a b rgb assms(6) by simp
qed

theorem C1_smooth_after_whiten_witness:
  "mInitialized skin32 \<and> buffers_ok skin32 \<and> whiten_in_range exact_fpu 2 \<and>
   \<not> log_is_zero exact_fpu 2 \<and> smooth_in_range exact_fpu 100 \<and>
   (33::nat) < nat (mImageWidth skin32 * mImageHeight skin32) \<and>
   the (mSkinMatrix skin32) ! 33 = 255 \<and>
   the (storedBitmapPixels
          (snd (startSkinSmooth exact_fpu spec_lib 100 (snd (startWhiteSkin exact_fpu spec_lib 2 skin32))))) ! 33
     = whiten_pixel exact_fpu spec_lib 2 0xFFC09078"
proof -
  have r: "whiten_in_range exact_fpu 2" "\<not> log_is_zero exact_fpu 2" "smooth_in_range exact_fpu 100"
    by (simp_all add: exact_in_range)
  note g = skin32_facts(1,2)
  have i: "(33::nat) < nat (mImageWidth skin32 * mImageHeight skin32)"
    by (simp add: skin32_facts)
  have sk: "the (mSkinMatrix skin32) ! 33 = 255"
    by (simp add: skin32_facts skin_byte_def spec_lib_def spec_convertIntToArgb_def isSkin_def)
  have rgb: "the (mImageData_rgb skin32) ! 33 = 0xFFC09078"
    by (simp add: skin32_facts)
  show ?thesis
    using g r i sk rgb
      C1_smooth_after_whiten_keeps_whitening [OF g r i, of spec_lib, THEN conjunct1]
    by simp
qed

section \<open>The frame of the smoothing pass\<close>

lemma smooth_pixel_nth_other:
  "k \<noteq> nat ((i * w + j) * 3) \<Longrightarrow> smooth_pixel fp I Q skin w h radius s i j yuv ! k = yuv ! k"
  by (simp add: smooth_pixel_def Let_def)

lemma smooth_pixel_non_skin:
  "skin ! nat (i * w + j) \<noteq> 255 \<Longrightarrow> smooth_pixel fp I Q skin w h radius s i j yuv = yuv"
  by (simp add: smooth_pixel_def Let_def)

lemma fold_nth_keeps:
  "(\<And>x s. x \<in> set xs \<Longrightarrow> f x s ! k = s ! k) \<Longrightarrow> fold f xs s ! k = s ! k"
  by (induction xs arbitrary: s) simp_all

lemma smooth_loops_nth:
  assumes "\<And>i j. 1 \<le> i \<Longrightarrow> i \<le> h - 2 \<Longrightarrow> 1 \<le> j \<Longrightarrow> j \<le> w - 2 \<Longrightarrow>
             skin ! nat (i * w + j) = 255 \<Longrightarrow> k \<noteq> nat ((i * w + j) * 3)"
  shows "smooth_loops fp I Q skin w h radius s yuv ! k = yuv ! k"
  unfolding smooth_loops_def
proof (rule fold_nth_keeps)
  fix i y
  assume i: "i \<in> set [1..h - 2]"
  show "fold (smooth_pixel fp I Q skin w h radius s i) [1..w - 2] y ! k = y ! k"
  proof (rule fold_nth_keeps)
    fix j z
    assume j: "j \<in> set [1..w - 2]"
    show "smooth_pixel fp I Q skin w h radius s i j z ! k = z ! k"
    proof (cases "skin ! nat (i * w + j) = 255")
      case True
      then have "k \<noteq> nat ((i * w + j) * 3)"
        using assms [of i j] i j by simp
      then show ?thesis by (rule smooth_pixel_nth_other)
    next
      case False
      then show ?thesis by (simp add: smooth_pixel_non_skin)
    qed
  qed
qed

lemma concat_triples_nth:
  assumes "\<And>x. length (f x) = 3" and "p < length xs" and "c < 3"
  shows "concat (map f xs) ! (3 * p + c) = f (xs ! p) ! c"
  using assms(2)
proof (induction xs arbitrary: p)
  case Nil
  then show ?case by simp
next
  case (Cons x xs)
  show ?case
  proof (cases p)
    case 0
    then show ?thesis using assms(1,3) by (simp add: nth_append)
  next
    case (Suc q)
    then have "q < length xs" using Cons.prems by simp
    then have "concat (map f xs) ! (3 * q + c) = f (xs ! q) ! c" by (rule Cons.IH)
    moreover have "3 * p + c = 3 + (3 * q + c)" using Suc by simp
    ultimately show ?thesis using assms(1) [of x] Suc
      by (simp add: nth_append)
  qed
qed

lemma RGBToYCbCr_nth:
  assumes "p < n" and "p < length rgb"
  shows "(RGBToYCbCr cv rgb n ! (3 * p), RGBToYCbCr cv rgb n ! (3 * p + 1), RGBToYCbCr cv rgb n ! (3 * p + 2))
         = RGBToYCbCr_pixel cv (rgb ! p)"
proof -
  let ?f = "\<lambda>p. case RGBToYCbCr_pixel cv p of (y, cb, cr) \<Rightarrow> [y, cb, cr]"
  have len: "\<And>x. length (?f x) = 3" by (simp split: prod.splits)
  have p: "p < length (take n rgb)" using assms by simp
  have "\<And>c. c < 3 \<Longrightarrow> RGBToYCbCr cv rgb n ! (3 * p + c) = ?f (rgb ! p) ! c"
    using concat_triples_nth [of ?f p "take n rgb", OF len p] assms
    by (simp add: RGBToYCbCr_def)
  from this [of 0] this [of 1] this [of 2] show ?thesis
    by (simp split: prod.splits)
qed

lemma YCbCrToRGB_nth:
  assumes "p < n" and "p < length To"
  shows "YCbCrToRGB cv From To n ! p
         = YCbCrToRGB_pixel cv (From ! (3 * p), From ! (3 * p + 1), From ! (3 * p + 2)) (To ! p)"
  using assms by (simp add: YCbCrToRGB_def nth_append)

lemma cell_index_unique:
  fixes W :: nat
  assumes "a * W + b = i * W + j" and "b < W" and "j < W"
  shows "a = i \<and> b = j"
proof -
  have "(a * W + b) div W = a" "(i * W + j) div W = i"
    using assms(2,3) by simp_all
  then have "a = i" using assms(1) by simp
  then show ?thesis using assms(1) by simp
qed

text \<open>
  The bytes of the YCbCr buffer that the pixel loop leaves as the conversion wrote
  them: the three of every pixel that is on the border or whose skin byte is not 255.
\<close>

lemma smooth_loops_frame:
  fixes i j :: nat
  assumes w: "0 \<le> w" and h: "0 \<le> h"
    and i: "i < nat h" and j: "j < nat w"
    and p: "skin ! (i * nat w + j) \<noteq> 255 \<or> i = 0 \<or> i = nat h - 1 \<or> j = 0 \<or> j = nat w - 1"
    and c: "c < 3"
  shows "smooth_loops fp I Q skin w h radius s yuv ! (3 * (i * nat w + j) + c)
         = yuv ! (3 * (i * nat w + j) + c)"
proof (rule smooth_loops_nth)
  fix a b :: int
  assume ab: "1 \<le> a" "a \<le> h - 2" "1 \<le> b" "b \<le> w - 2" and sk: "skin ! nat (a * w + b) = 255"
  have n: "nat (a * w + b) = nat a * nat w + nat b"
    using ab w by (simp add: nat_add_distrib nat_mult_distrib)
  have "0 \<le> a * w + b" using ab w by simp
  then have "nat ((a * w + b) * 3) = nat (a * w + b) * 3"
    by (simp add: nat_mult_distrib)
  then have n3: "nat ((a * w + b) * 3) = 3 * (nat a * nat w + nat b)"
    by (simp only: n mult.commute)
  show "3 * (i * nat w + j) + c \<noteq> nat ((a * w + b) * 3)"
  proof
    assume eq: "3 * (i * nat w + j) + c = nat ((a * w + b) * 3)"
    then have "3 * (i * nat w + j) + c = 3 * (nat a * nat w + nat b)"
      by (simp only: n3)
    moreover have "\<And>X Y :: nat. 3 * X + c = 3 * Y \<Longrightarrow> c = 0 \<and> Y = X"
      using c by presburger
    ultimately have c0: "c = 0" and cell: "nat a * nat w + nat b = i * nat w + j"
      by blast+
    have "nat b < nat w" using ab by simp
    then have "nat a = i \<and> nat b = j"
      using cell j by (intro cell_index_unique) simp_all
    then show False
      using p sk n ab by auto
  qed
qed


lemma cell_in_image:
  fixes i j W H :: nat
  assumes "i < H" "j < W"
  shows "i * W + j < W * H"
proof -
  have "i * W + j < i * W + W" using assms(2) by simp
  also have "\<dots> = Suc i * W" by simp
  also have "\<dots> \<le> H * W" using assms(1) by (intro mult_le_mono1) simp
  finally show ?thesis by (simp add: mult.commute)
qed

lemma smooth_alone_frame_pixel:
  fixes i j :: nat
  assumes init: "mInitialized e" and ok: "buffers_ok e"
    and sigma: "smooth_in_range fp sigma"
    and nw: "\<not> whiten_in_range fp (mWhitenLevel e) \<or> log_is_zero fp (mWhitenLevel e)"
    and i: "i < nat (mImageHeight e)" and j: "j < nat (mImageWidth e)"
    and p: "the (mSkinMatrix e) ! (i * nat (mImageWidth e) + j) \<noteq> 255 \<or>
            i = 0 \<or> i = nat (mImageHeight e) - 1 \<or> j = 0 \<or> j = nat (mImageWidth e) - 1"
  shows "the (storedBitmapPixels (snd (startSkinSmooth fp cv sigma e))) ! (i * nat (mImageWidth e) + j)
         = YCbCrToRGB_pixel cv
             (RGBToYCbCr_pixel cv (the (mImageData_rgb e) ! (i * nat (mImageWidth e) + j)))
             (the (storedBitmapPixels e) ! (i * nat (mImageWidth e) + j))"
proof -
  let ?w = "mImageWidth e" and ?h = "mImageHeight e"
  let ?p = "i * nat ?w + j"
  from ok obtain rgb yuv skin I Q out where b:
    "mImageData_rgb e = Some rgb" "mImageData_yuv e = Some yuv" "mSkinMatrix e = Some skin"
    "mIntegralMatrix e = Some I" "mIntegralMatrixSqr e = Some Q" "storedBitmapPixels e = Some out"
    "length rgb = nat (?w * ?h)" "length out = nat (?w * ?h)" "0 \<le> ?w" "0 \<le> ?h"
    by (rule buffers_okD)
  let ?n = "nat (?w * ?h)"
  let ?yuv0 = "RGBToYCbCr cv rgb ?n"
  let ?yuv1 = "smooth_loops fp I Q skin ?w ?h (smooth_radius fp ?w ?h) sigma ?yuv0"
  have n: "?n = nat ?w * nat ?h"
    using b(9,10) by (simp add: nat_mult_distrib)
  have pn: "?p < ?n"
    using cell_in_image [OF i j] by (simp add: n)
  have "storedBitmapPixels (snd (startSkinSmooth fp cv sigma e))
        = storedBitmapPixels (p_startSkinSmooth fp cv sigma (e\<lparr> mSmoothLevel := sigma \<rparr>))"
    using p_startBeauty_out_not_whitened [OF init nw, of cv sigma] sigma
    by (simp add: startSkinSmooth_def)
  also have "\<dots> = Some (YCbCrToRGB cv ?yuv1 out ?n)"
    using b by (simp add: p_startSkinSmooth_def Let_def)
  finally have out': "the (storedBitmapPixels (snd (startSkinSmooth fp cv sigma e))) ! ?p
        = YCbCrToRGB_pixel cv (?yuv1 ! (3 * ?p), ?yuv1 ! (3 * ?p + 1), ?yuv1 ! (3 * ?p + 2)) (out ! ?p)"
    using YCbCrToRGB_nth [of ?p ?n out cv ?yuv1] pn b(8) by simp
  have fr: "\<And>c. c < 3 \<Longrightarrow> ?yuv1 ! (3 * ?p + c) = ?yuv0 ! (3 * ?p + c)"
    using p b(3) by (intro smooth_loops_frame b(9,10) i j) simp_all
  have "(?yuv1 ! (3 * ?p), ?yuv1 ! (3 * ?p + 1), ?yuv1 ! (3 * ?p + 2))
        = (?yuv0 ! (3 * ?p), ?yuv0 ! (3 * ?p + 1), ?yuv0 ! (3 * ?p + 2))"
    using fr [of 0] fr [of 1] fr [of 2] by simp
  also have "\<dots> = RGBToYCbCr_pixel cv (rgb ! ?p)"
    using pn b(7) by (intro RGBToYCbCr_nth) simp_all
  finally show ?thesis
    using out' b(1,6) by simp
qed

lemma spec_round_trip_red:
  "spec_YCbCrToRGB_pixel (spec_RGBToYCbCr_pixel 0xFFFF0000) 0xFFFF0000 = 0xFFFE0000"
  by (simp add: spec_YCbCrToRGB_pixel_def spec_RGBToYCbCr_pixel_def Let_def round1000_def
        to_u8_def clamp_def)

text \<open>
  C2. The claim: after a smoothing call with no whitening, a pixel that is not skin or
  lies on the border is bitwise the pixel of the RGB copy. The code: the pixel loop
  leaves the three YCbCr bytes of such a pixel as the conversion of the RGB copy wrote
  them, and \<^verbatim>\<open>Conversion::YCbCrToRGB\<close> then rewrites every word of the output from the
  YCbCr buffer. The pixel of the output is the conversion back of the converted pixel
  of the RGB copy, written over the word the output held: it is the pixel of the RGB
  copy where that round trip through 8-bit YCbCr gives the pixel back.
  "No whitening" is: the stored whiten level fails the range check or has a zero
  logarithm. Row \<open>i\<close> and column \<open>j\<close> address pixel \<open>i * width + j\<close>.
\<close>

theorem C2_smooth_alone_round_trip_outside_skin:
  fixes i j :: nat
  assumes "mInitialized e" and "buffers_ok e"
    and "smooth_in_range fp sigma"
    and "\<not> whiten_in_range fp (mWhitenLevel e) \<or> log_is_zero fp (mWhitenLevel e)"
    and "i < nat (mImageHeight e)" and "j < nat (mImageWidth e)"
    and "the (mSkinMatrix e) ! (i * nat (mImageWidth e) + j) \<noteq> 255 \<or>
         i = 0 \<or> i = nat (mImageHeight e) - 1 \<or> j = 0 \<or> j = nat (mImageWidth e) - 1"
  shows "the (storedBitmapPixels (snd (startSkinSmooth fp cv sigma e))) ! (i * nat (mImageWidth e) + j)
         = YCbCrToRGB_pixel cv
             (RGBToYCbCr_pixel cv (the (mImageData_rgb e) ! (i * nat (mImageWidth e) + j)))
             (the (storedBitmapPixels e) ! (i * nat (mImageWidth e) + j))"
  using assms by (rule smooth_alone_frame_pixel)

lemma spec_round_trip_gray:
  "spec_YCbCrToRGB_pixel (spec_RGBToYCbCr_pixel 0xFF808080) 0xFF808080 = 0xFF808080"
  by (simp add: spec_YCbCrToRGB_pixel_def spec_RGBToYCbCr_pixel_def Let_def round1000_def
        to_u8_def clamp_def)

lemma spec_lib_fields [simp]:
  "convertIntToArgb spec_lib = spec_convertIntToArgb"
  "convertArgbToInt spec_lib = spec_convertArgbToInt"
  "RGBToYCbCr_pixel spec_lib = spec_RGBToYCbCr_pixel"
  "YCbCrToRGB_pixel spec_lib = spec_YCbCrToRGB_pixel"
  by (simp_all add: spec_lib_def)

theorem C2_smooth_alone_witness:
  "mInitialized gray32 \<and> buffers_ok gray32 \<and> smooth_in_range exact_fpu 100 \<and>
   \<not> whiten_in_range exact_fpu (mWhitenLevel gray32) \<and>
   (0::nat) < nat (mImageHeight gray32) \<and> (0::nat) < nat (mImageWidth gray32) \<and>
   the (storedBitmapPixels (snd (startSkinSmooth exact_fpu spec_lib 100 gray32))) ! 0 = 0xFF808080"
proof -
  have r: "smooth_in_range exact_fpu 100"
    "\<not> whiten_in_range exact_fpu (mWhitenLevel gray32) \<or> log_is_zero exact_fpu (mWhitenLevel gray32)"
    by (simp_all add: exact_in_range gray32_facts)
  have d: "(0::nat) < nat (mImageHeight gray32)" "(0::nat) < nat (mImageWidth gray32)"
    by (simp_all add: gray32_facts)
  have b: "the (mSkinMatrix gray32) ! (0 * nat (mImageWidth gray32) + 0) \<noteq> 255 \<or>
           (0::nat) = 0 \<or> (0::nat) = nat (mImageHeight gray32) - 1 \<or> (0::nat) = 0 \<or>
           (0::nat) = nat (mImageWidth gray32) - 1"
    by simp
  show ?thesis
    using r d gray32_facts(1,2)
      C2_smooth_alone_round_trip_outside_skin [OF gray32_facts(1,2) r d b, of spec_lib]
    by (simp add: gray32_facts exact_in_range spec_round_trip_gray)
qed

theorem C2_round_trip_changes_pixel:
  "the (mSkinMatrix red32) ! 33 = 0 \<and>
   the (mImageData_rgb (snd (startSkinSmooth exact_fpu spec_lib 100 red32))) ! 33 = 0xFFFF0000 \<and>
   the (storedBitmapPixels (snd (startSkinSmooth exact_fpu spec_lib 100 red32))) ! 33 = 0xFFFE0000"
proof -
  have r: "smooth_in_range exact_fpu 100"
    "\<not> whiten_in_range exact_fpu (mWhitenLevel red32) \<or> log_is_zero exact_fpu (mWhitenLevel red32)"
    by (simp_all add: exact_in_range red32_facts)
  have d: "(1::nat) < nat (mImageHeight red32)" "(1::nat) < nat (mImageWidth red32)"
    by (simp_all add: red32_facts)
  have sk: "the (mSkinMatrix red32) ! 33 = 0"
    by (simp add: red32_facts skin_byte_def spec_convertIntToArgb_def isSkin_def)
  have b: "the (mSkinMatrix red32) ! (1 * nat (mImageWidth red32) + 1) \<noteq> 255 \<or>
           (1::nat) = 0 \<or> (1::nat) = nat (mImageHeight red32) - 1 \<or> (1::nat) = 0 \<or>
           (1::nat) = nat (mImageWidth red32) - 1"
    using sk by (simp add: red32_facts)
  have "the (storedBitmapPixels (snd (startSkinSmooth exact_fpu spec_lib 100 red32))) ! 33 = 0xFFFE0000"
    using smooth_alone_frame_pixel [OF red32_facts(1,2) r d b, of spec_lib]
    by (simp add: red32_facts spec_round_trip_red)
  moreover have "the (mImageData_rgb (snd (startSkinSmooth exact_fpu spec_lib 100 red32))) ! 33 = 0xFFFF0000"
    using p_startBeauty_keeps(1) [of exact_fpu spec_lib 100 "mWhitenLevel red32" red32]
    by (simp add: startSkinSmooth_def red32_facts)
  ultimately show ?thesis using sk by simp
qed

section \<open>The summed-area tables\<close>

lemma fold_upt_inv:
  assumes "m \<le> n" and "P m s"
    and "\<And>i s. m \<le> i \<Longrightarrow> i < n \<Longrightarrow> P i s \<Longrightarrow> P (Suc i) (f i s)"
  shows "P n (fold f [m..<n] s)"
  using assms
proof (induction n)
  case 0
  then show ?case by simp
next
  case (Suc n)
  show ?case
  proof (cases "m \<le> n")
    case True
    have "P n (fold f [m..<n] s)"
      using True Suc.prems(2,3) by (intro Suc.IH) simp_all
    then have "P (Suc n) (f n (fold f [m..<n] s))"
      using True by (intro Suc.prems(3)) simp_all
    then show ?thesis using True by simp
  next
    case False
    then have "m = Suc n" using Suc.prems(1) by simp
    then show ?thesis using Suc.prems(2) by simp
  qed
qed

lemma col_sum_Suc: "col_sum g w (Suc i) b = col_sum g w i b + g (i * w + b)"
  by (simp add: col_sum_def)

lemma tbl_sum_Suc: "tbl_sum g w i (Suc j) = tbl_sum g w i j + col_sum g w i j"
  by (simp add: tbl_sum_def)

lemma tbl_sum_one: "tbl_sum g w i (Suc 0) = col_sum g w i 0"
  by (simp add: tbl_sum_def)

lemma sat_inv_start:
  "length T = n \<Longrightarrow> sat_inv g w n 0 0 (replicate w 0, T)"
  by (simp add: sat_inv_def col_sum_def)

lemma sat_inv_next_row:
  "sat_inv g w n i w s \<Longrightarrow> sat_inv g w n (Suc i) 0 s"
  by (cases s) (auto simp: sat_inv_def less_Suc_eq)

lemma sat_row_step_inv:
  assumes inv: "sat_inv g w n i j s" and j: "j < w" and off: "i * w + j < n"
  shows "sat_inv g w n i (Suc j) (sat_row_step g w i j s)"
proof -
  obtain cs T where s: "s = (cs, T)" by (cases s)
  from inv have len: "length cs = w" "length T = n"
    and cs: "\<And>b. b < w \<Longrightarrow> cs ! b = col_sum g w (if b < j then Suc i else i) b"
    and T: "\<And>a b. b < w \<Longrightarrow> a < i \<or> (a = i \<and> b < j) \<Longrightarrow> a * w + b < n \<Longrightarrow>
                T ! (a * w + b) = tbl_sum g w (Suc a) (Suc b)"
    by (auto simp: sat_inv_def s)
  let ?cs1 = "cs[j := cs ! j + g (i * w + j)]"
  let ?v = "if j = 0 then ?cs1 ! j else T ! (i * w + j - 1) + ?cs1 ! j"
  have step: "sat_row_step g w i j s = (?cs1, T[i * w + j := ?v])"
    by (simp add: sat_row_step_def s Let_def)
  have csj: "?cs1 ! j = col_sum g w (Suc i) j"
    using cs [of j] j len by (simp add: col_sum_Suc)
  have cs1: "\<And>b. b < w \<Longrightarrow> ?cs1 ! b = col_sum g w (if b < Suc j then Suc i else i) b"
  proof -
    fix b assume b: "b < w"
    show "?cs1 ! b = col_sum g w (if b < Suc j then Suc i else i) b"
    proof (cases "b = j")
      case True
      then show ?thesis using csj by simp
    next
      case False
      then show ?thesis using cs [OF b] by (auto simp: less_Suc_eq)
    qed
  qed
  have v: "?v = tbl_sum g w (Suc i) (Suc j)"
  proof (cases "j = 0")
    case True
    then show ?thesis using csj by (simp add: tbl_sum_one)
  next
    case False
    then have "i * w + j - 1 = i * w + (j - 1)" by simp
    moreover have "T ! (i * w + (j - 1)) = tbl_sum g w (Suc i) (Suc (j - 1))"
      using False j off by (intro T) simp_all
    ultimately show ?thesis using False csj by (simp add: tbl_sum_Suc)
  qed
  have T1: "\<And>a b. b < w \<Longrightarrow> a < i \<or> (a = i \<and> b < Suc j) \<Longrightarrow> a * w + b < n \<Longrightarrow>
              T[i * w + j := ?v] ! (a * w + b) = tbl_sum g w (Suc a) (Suc b)"
  proof -
    fix a b assume b: "b < w" and ab: "a < i \<or> (a = i \<and> b < Suc j)" and n: "a * w + b < n"
    show "T[i * w + j := ?v] ! (a * w + b) = tbl_sum g w (Suc a) (Suc b)"
    proof (cases "a = i \<and> b = j")
      case True
      then show ?thesis using v off len by simp
    next
      case False
      then have "a * w + b \<noteq> i * w + j"
        using cell_index_unique [of a w b i j] b j by blast
      moreover have "a < i \<or> (a = i \<and> b < j)" using ab False by auto
      ultimately show ?thesis using T [OF b _ n] by simp
    qed
  qed
  show ?thesis
    unfolding step sat_inv_def using len cs1 T1 by simp
qed

lemma sat_first_step_inv:
  assumes inv: "sat_inv g w n 0 j s" and j: "j < w" and off: "j < n"
  shows "sat_inv g w n 0 (Suc j) (sat_first_step g j s)"
proof -
  obtain cs T where s: "s = (cs, T)" by (cases s)
  from inv j have "cs ! j = col_sum g w 0 j"
    by (simp add: sat_inv_def s)
  then have "cs ! j + g j = g j" by (simp add: col_sum_def)
  then have "sat_first_step g j s = sat_row_step g w 0 j s"
    by (cases "j = 0") (simp_all add: sat_first_step_def sat_row_step_def s Let_def)
  then show ?thesis
    using sat_row_step_inv [OF inv j] off by simp
qed


lemma sat_loops_inv:
  assumes len: "length T = n" and h: "1 \<le> h" and n: "h * w \<le> n"
  shows "sat_inv g w n h 0
           (fold (\<lambda>i. fold (sat_row_step g w i) [0..<w]) [1..<h]
              (fold (sat_first_step g) [0..<w] (replicate w 0, T)))"
proof -
  have wn: "w \<le> n"
  proof -
    have "1 * w \<le> h * w" using h by (rule mult_le_mono1)
    then have "w \<le> h * w" by (simp only: mult_1)
    then show ?thesis using n by (rule order_trans)
  qed
  have first: "sat_inv g w n 0 w (fold (sat_first_step g) [0..<w] (replicate w 0, T))"
  proof (rule fold_upt_inv [where P = "\<lambda>j. sat_inv g w n 0 j"])
    show "sat_inv g w n 0 0 (replicate w 0, T)" by (rule sat_inv_start [OF len])
  next
    fix j s assume "j < w" "sat_inv g w n 0 j s"
    then show "sat_inv g w n 0 (Suc j) (sat_first_step g j s)"
      using wn by (intro sat_first_step_inv) simp_all
  qed simp
  have row: "\<And>i s. 1 \<le> i \<Longrightarrow> i < h \<Longrightarrow> sat_inv g w n i 0 s \<Longrightarrow>
               sat_inv g w n (Suc i) 0 (fold (sat_row_step g w i) [0..<w] s)"
  proof -
    fix i s assume i: "1 \<le> i" "i < h" and inv: "sat_inv g w n i 0 s"
    have iw: "Suc i * w \<le> n"
    proof -
      have "Suc i * w \<le> h * w" using i by (intro mult_le_mono1) simp
      then show ?thesis using n by simp
    qed
    have "sat_inv g w n i w (fold (sat_row_step g w i) [0..<w] s)"
    proof (rule fold_upt_inv [where P = "\<lambda>j. sat_inv g w n i j"])
      show "sat_inv g w n i 0 s" by (rule inv)
    next
      fix j s' assume j: "j < w" and inv': "sat_inv g w n i j s'"
      have "i * w + j < n" using j iw by simp
      then show "sat_inv g w n i (Suc j) (sat_row_step g w i j s')"
        using inv' j by (intro sat_row_step_inv)
    qed simp
    then show "sat_inv g w n (Suc i) 0 (fold (sat_row_step g w i) [0..<w] s)"
      by (rule sat_inv_next_row)
  qed
  show ?thesis
  proof (rule fold_upt_inv [where P = "\<lambda>i. sat_inv g w n i 0"])
    show "1 \<le> h" by (rule h)
    show "sat_inv g w n 1 0 (fold (sat_first_step g) [0..<w] (replicate w 0, T))"
      using sat_inv_next_row [OF first] by simp
  next
    fix i s assume "1 \<le> i" "i < h" "sat_inv g w n i 0 s"
    then show "sat_inv g w n (Suc i) 0 (fold (sat_row_step g w i) [0..<w] s)"
      by (rule row)
  qed
qed

text \<open>Each table of \<^verbatim>\<open>initIntegral\<close>, with its column sums, goes through the loops on its own.\<close>

lemma fold_project:
  "(\<And>x s. pr (f x s) = g x (pr s)) \<Longrightarrow> pr (fold f xs s) = fold g xs (pr s)"
  by (induction xs arbitrary: s) simp_all

lemma integral_loops_sum:
  "(columnSum (integral_loops yuv w h s), integralMatrix (integral_loops yuv w h s))
   = fold (\<lambda>i. fold (sat_row_step (y_u64 yuv) w i) [0..<w]) [1..<h]
       (fold (sat_first_step (y_u64 yuv)) [0..<w] (columnSum s, integralMatrix s))"
proof -
  let ?pr = "\<lambda>s. (columnSum s, integralMatrix s)"
  have a: "\<And>j s. ?pr (integral_first_row_step yuv j s) = sat_first_step (y_u64 yuv) j (?pr s)"
    by (simp add: integral_first_row_step_def sat_first_step_def y_u64_def luma_def Let_def)
  have b: "\<And>i j s. ?pr (integral_row_step yuv w i j s) = sat_row_step (y_u64 yuv) w i j (?pr s)"
    by (simp add: integral_row_step_def sat_row_step_def y_u64_def luma_def Let_def)
  have c: "\<And>i s. ?pr (fold (integral_row_step yuv w i) [0..<w] s)
             = fold (sat_row_step (y_u64 yuv) w i) [0..<w] (?pr s)"
    by (rule fold_project) (rule b)
  have "?pr (integral_loops yuv w h s)
        = fold (\<lambda>i. fold (sat_row_step (y_u64 yuv) w i) [0..<w]) [1..<h]
            (?pr (fold (integral_first_row_step yuv) [0..<w] s))"
    unfolding integral_loops_def by (rule fold_project) (rule c)
  also have "?pr (fold (integral_first_row_step yuv) [0..<w] s)
        = fold (sat_first_step (y_u64 yuv)) [0..<w] (?pr s)"
    by (rule fold_project) (rule a)
  finally show ?thesis .
qed

lemma integral_loops_sqr:
  "(columnSumSqr (integral_loops yuv w h s), integralMatrixSqr (integral_loops yuv w h s))
   = fold (\<lambda>i. fold (sat_row_step (y2_u64 yuv) w i) [0..<w]) [1..<h]
       (fold (sat_first_step (y2_u64 yuv)) [0..<w] (columnSumSqr s, integralMatrixSqr s))"
proof -
  let ?pr = "\<lambda>s. (columnSumSqr s, integralMatrixSqr s)"
  have a: "\<And>j s. ?pr (integral_first_row_step yuv j s) = sat_first_step (y2_u64 yuv) j (?pr s)"
    by (simp add: integral_first_row_step_def sat_first_step_def y2_u64_def luma_def Let_def)
  have b: "\<And>i j s. ?pr (integral_row_step yuv w i j s) = sat_row_step (y2_u64 yuv) w i j (?pr s)"
    by (simp add: integral_row_step_def sat_row_step_def y2_u64_def luma_def Let_def)
  have c: "\<And>i s. ?pr (fold (integral_row_step yuv w i) [0..<w] s)
             = fold (sat_row_step (y2_u64 yuv) w i) [0..<w] (?pr s)"
    by (rule fold_project) (rule b)
  have "?pr (integral_loops yuv w h s)
        = fold (\<lambda>i. fold (sat_row_step (y2_u64 yuv) w i) [0..<w]) [1..<h]
            (?pr (fold (integral_first_row_step yuv) [0..<w] s))"
    unfolding integral_loops_def by (rule fold_project) (rule c)
  also have "?pr (fold (integral_first_row_step yuv) [0..<w] s)
        = fold (sat_first_step (y2_u64 yuv)) [0..<w] (?pr s)"
    by (rule fold_project) (rule a)
  finally show ?thesis .
qed

lemma prefix_sum_tbl: "prefix_sum g w i j = tbl_sum g w (Suc i) (Suc j)"
proof -
  have "prefix_sum g w i j = (\<Sum>a<Suc i. \<Sum>b<Suc j. g (a * w + b))"
    by (simp add: prefix_sum_def interv_sum_list_conv_sum_set_nat atLeast0LessThan del: upt_Suc)
  also have "\<dots> = (\<Sum>b<Suc j. \<Sum>a<Suc i. g (a * w + b))"
    by (rule sum.swap)
  finally show ?thesis by (simp add: tbl_sum_def col_sum_def)
qed

text \<open>The tables after the loops: every cell holds the inclusive prefix sum.\<close>

lemma integral_loops_cells:
  assumes "length (integralMatrix s) = w * h" and "length (integralMatrixSqr s) = w * h"
    and "columnSum s = replicate w 0" and "columnSumSqr s = replicate w 0"
    and "i < h" and "j < w"
  shows "integralMatrix (integral_loops yuv w h s) ! (i * w + j) = prefix_sum (y_u64 yuv) w i j"
    and "integralMatrixSqr (integral_loops yuv w h s) ! (i * w + j) = prefix_sum (y2_u64 yuv) w i j"
proof -
  have h: "1 \<le> h" using assms(5) by simp
  have n: "h * w \<le> w * h" by (simp add: mult.commute)
  have ij: "i * w + j < w * h" using assms(5,6) by (rule cell_in_image)
  have "sat_inv (y_u64 yuv) w (w * h) h 0
          (columnSum (integral_loops yuv w h s), integralMatrix (integral_loops yuv w h s))"
    unfolding integral_loops_sum assms(3)
    by (rule sat_loops_inv [OF assms(1) h n])
  then show "integralMatrix (integral_loops yuv w h s) ! (i * w + j) = prefix_sum (y_u64 yuv) w i j"
    using assms(5,6) ij by (simp add: sat_inv_def prefix_sum_tbl)
  have "sat_inv (y2_u64 yuv) w (w * h) h 0
          (columnSumSqr (integral_loops yuv w h s), integralMatrixSqr (integral_loops yuv w h s))"
    unfolding integral_loops_sqr assms(4)
    by (rule sat_loops_inv [OF assms(2) h n])
  then show "integralMatrixSqr (integral_loops yuv w h s) ! (i * w + j) = prefix_sum (y2_u64 yuv) w i j"
    using assms(5,6) ij by (simp add: sat_inv_def prefix_sum_tbl)
qed

lemma rect_sum_tbl:
  assumes "i0 \<le> i1" and "j0 \<le> j1"
  shows "rect_sum g w i0 j0 i1 j1
         = tbl_sum g w (Suc i1) (Suc j1) + tbl_sum g w i0 j0
           - tbl_sum g w (Suc i1) j0 - tbl_sum g w i0 (Suc j1)"
proof -
  define R where "R J = (\<Sum>b<J. \<Sum>a\<in>{i0..<Suc i1}. g (a * w + b))" for J
  have col: "col_sum g w (Suc i1) b = col_sum g w i0 b + (\<Sum>a\<in>{i0..<Suc i1}. g (a * w + b))" for b
    using sum.atLeastLessThan_concat [of 0 i0 "Suc i1" "\<lambda>a. g (a * w + b)"] assms(1)
    by (simp add: col_sum_def lessThan_atLeast0)
  have t: "tbl_sum g w (Suc i1) J = tbl_sum g w i0 J + R J" for J
    by (simp add: tbl_sum_def col sum.distrib R_def)
  have r: "R (Suc j1) = R j0 + (\<Sum>b\<in>{j0..<Suc j1}. \<Sum>a\<in>{i0..<Suc i1}. g (a * w + b))"
    using sum.atLeastLessThan_concat [of 0 j0 "Suc j1" "\<lambda>b. \<Sum>a\<in>{i0..<Suc i1}. g (a * w + b)"] assms(2)
    by (simp add: R_def lessThan_atLeast0)
  have "rect_sum g w i0 j0 i1 j1 = (\<Sum>a\<in>{i0..<Suc i1}. \<Sum>b\<in>{j0..<Suc j1}. g (a * w + b))"
    by (simp add: rect_sum_def interv_sum_list_conv_sum_set_nat del: upt_Suc)
  also have "\<dots> = (\<Sum>b\<in>{j0..<Suc j1}. \<Sum>a\<in>{i0..<Suc i1}. g (a * w + b))"
    by (rule sum.swap)
  also have "\<dots> = R (Suc j1) - R j0"
    by (simp add: r)
  finally show ?thesis
    by (simp add: t [of "Suc j1"] t [of j0])
qed

text \<open>
  The four-corner query of \<^verbatim>\<open>_startSkinSmooth\<close> on a table whose cells are the inclusive
  prefix sums, for a rectangle that starts at row 1 and column 1 or later.
\<close>

lemma sat_query_rect:
  fixes g :: "nat \<Rightarrow> u64"
  assumes cells: "\<And>i j. i < h \<Longrightarrow> j < w \<Longrightarrow> T ! (i * w + j) = prefix_sum g w i j"
    and i: "1 \<le> i0" "i0 \<le> i1" "i1 < int h" and j: "1 \<le> j0" "j0 \<le> j1" "j1 < int w"
  shows "sat_query T (int w) i0 j0 i1 j1 = rect_sum g w (nat i0) (nat j0) (nat i1) (nat j1)"
proof -
  have idx: "nat (a * int w + b) = nat a * w + nat b" if "0 \<le> a" "0 \<le> b" for a b
    using that by (simp add: nat_add_distrib nat_mult_distrib)
  have cell: "T ! nat (a * int w + b) = tbl_sum g w (Suc (nat a)) (Suc (nat b))"
    if "0 \<le> a" "a < int h" "0 \<le> b" "b < int w" for a b
    using that cells [of "nat a" "nat b"] by (simp add: idx prefix_sum_tbl)
  have s: "Suc (nat (i0 - 1)) = nat i0" "Suc (nat (j0 - 1)) = nat j0"
    using i j by simp_all
  have "sat_query T (int w) i0 j0 i1 j1
        = tbl_sum g w (Suc (nat i1)) (Suc (nat j1)) + tbl_sum g w (nat i0) (nat j0)
          - tbl_sum g w (Suc (nat i1)) (nat j0) - tbl_sum g w (nat i0) (Suc (nat j1))"
    using i j
    by (simp add: sat_query_def Let_def cell [of i1 j1] cell [of "i0 - 1" "j0 - 1"]
          cell [of i1 "j0 - 1"] cell [of "i0 - 1" j1] s)
  also have "\<dots> = rect_sum g w (nat i0) (nat j0) (nat i1) (nat j1)"
    using i j by (intro rect_sum_tbl [symmetric]) simp_all
  finally show ?thesis .
qed

text \<open>The tables do not wrap around: the sums of an image of at most 4000000 pixels fit 64 bits.\<close>

lemma sum_list_of_nat_map:
  "(\<Sum>x\<leftarrow>xs. of_nat (f x)) = (of_nat (\<Sum>x\<leftarrow>xs. f x) :: 'a::semiring_1)"
  by (induction xs) simp_all

lemma rect_sum_of_nat:
  "rect_sum (\<lambda>off. of_nat (f off)) w i0 j0 i1 j1 = (of_nat (rect_sum f w i0 j0 i1 j1) :: 'a::semiring_1)"
  unfolding rect_sum_def by (simp only: sum_list_of_nat_map)

lemma sum_list_bound:
  fixes f :: "'a \<Rightarrow> nat"
  assumes "\<And>x. f x \<le> c"
  shows "(\<Sum>x\<leftarrow>xs. f x) \<le> length xs * c"
proof (induction xs)
  case Nil
  then show ?case by simp
next
  case (Cons x xs)
  then show ?case using assms [of x] by simp
qed

lemma rect_sum_bound:
  fixes f :: "nat \<Rightarrow> nat"
  assumes "\<And>off. f off \<le> c"
  shows "rect_sum f w i0 j0 i1 j1 \<le> (Suc i1 - i0) * ((Suc j1 - j0) * c)"
proof -
  have "\<And>a. (\<Sum>b\<leftarrow>[j0..<Suc j1]. f (a * w + b)) \<le> (Suc j1 - j0) * c"
    using sum_list_bound [of "\<lambda>b. f (_ * w + b)" c "[j0..<Suc j1]"] assms
    by (simp del: upt_Suc)
  then have "(\<Sum>a\<leftarrow>[i0..<Suc i1]. \<Sum>b\<leftarrow>[j0..<Suc j1]. f (a * w + b))
             \<le> length [i0..<Suc i1] * ((Suc j1 - j0) * c)"
    by (rule sum_list_bound)
  then show ?thesis by (simp add: rect_sum_def del: upt_Suc)
qed

lemma y_u64_of_nat: "y_u64 yuv = (\<lambda>off. of_nat (unat (luma yuv off)))"
  by (simp add: y_u64_def fun_eq_iff)

lemma y2_u64_of_nat: "y2_u64 yuv = (\<lambda>off. of_nat (unat (luma yuv off) * unat (luma yuv off)))"
  by (simp add: y2_u64_def fun_eq_iff)

lemma luma_bounds:
  "unat (luma yuv off) \<le> 255" "unat (luma yuv off) * unat (luma yuv off) \<le> 65025"
proof -
  have "unat (luma yuv off) < 2 ^ 8"
    using unsigned_less [of "luma yuv off", where 'a = nat] by simp
  then show a: "unat (luma yuv off) \<le> 255" by simp
  have "unat (luma yuv off) * unat (luma yuv off) \<le> 255 * 255"
    using a by (intro mult_le_mono)
  then show "unat (luma yuv off) * unat (luma yuv off) \<le> 65025" by simp
qed

lemma rect_sum_no_wrap:
  fixes i0 j0 i1 j1 w h :: nat
  assumes "i1 < h" and "j1 < w" and "w * h \<le> 4000000"
  shows "unat (rect_sum (y_u64 yuv) w i0 j0 i1 j1) = rect_sum (\<lambda>off. unat (luma yuv off)) w i0 j0 i1 j1"
    and "unat (rect_sum (y2_u64 yuv) w i0 j0 i1 j1)
         = rect_sum (\<lambda>off. unat (luma yuv off) * unat (luma yuv off)) w i0 j0 i1 j1"
proof -
  have "(Suc i1 - i0) * (Suc j1 - j0) \<le> h * w"
    using assms(1,2) by (intro mult_le_mono) simp_all
  then have cells: "(Suc i1 - i0) * (Suc j1 - j0) \<le> 4000000"
    using assms(3) by (simp add: mult.commute)
  have "rect_sum (\<lambda>off. unat (luma yuv off)) w i0 j0 i1 j1 \<le> (Suc i1 - i0) * ((Suc j1 - j0) * 255)"
    by (rule rect_sum_bound) (rule luma_bounds)
  also have "\<dots> = ((Suc i1 - i0) * (Suc j1 - j0)) * 255" by simp
  also have "\<dots> \<le> 4000000 * 255" using cells by (rule mult_le_mono1)
  finally have "rect_sum (\<lambda>off. unat (luma yuv off)) w i0 j0 i1 j1 < 2 ^ 64" by simp
  moreover have "rect_sum (y_u64 yuv) w i0 j0 i1 j1
                 = of_nat (rect_sum (\<lambda>off. unat (luma yuv off)) w i0 j0 i1 j1)"
    unfolding y_u64_of_nat by (rule rect_sum_of_nat)
  ultimately show "unat (rect_sum (y_u64 yuv) w i0 j0 i1 j1)
                   = rect_sum (\<lambda>off. unat (luma yuv off)) w i0 j0 i1 j1"
    by (simp add: unat_of_nat)
  have "rect_sum (\<lambda>off. unat (luma yuv off) * unat (luma yuv off)) w i0 j0 i1 j1
        \<le> (Suc i1 - i0) * ((Suc j1 - j0) * 65025)"
    by (rule rect_sum_bound) (rule luma_bounds)
  also have "\<dots> = ((Suc i1 - i0) * (Suc j1 - j0)) * 65025" by simp
  also have "\<dots> \<le> 4000000 * 65025" using cells by (rule mult_le_mono1)
  finally have "rect_sum (\<lambda>off. unat (luma yuv off) * unat (luma yuv off)) w i0 j0 i1 j1 < 2 ^ 64"
    by simp
  moreover have "rect_sum (y2_u64 yuv) w i0 j0 i1 j1
                 = of_nat (rect_sum (\<lambda>off. unat (luma yuv off) * unat (luma yuv off)) w i0 j0 i1 j1)"
    unfolding y2_u64_of_nat by (rule rect_sum_of_nat)
  ultimately show "unat (rect_sum (y2_u64 yuv) w i0 j0 i1 j1)
         = rect_sum (\<lambda>off. unat (luma yuv off) * unat (luma yuv off)) w i0 j0 i1 j1"
    by (simp add: unat_of_nat)
qed


text \<open>The tables of an engine that \<^verbatim>\<open>initMagicBeautify\<close> has initialized.\<close>

lemma init_tables:
  fixes cv :: bitmap_lib and e :: "'f MagicBeautify"
  assumes safe: "isSizeSafe w h"
    and alloc: "alloc 0" "alloc 1" "alloc 2" "alloc 3" "alloc 4" "alloc 5" "alloc 6"
    and len: "length px = nat (w * h)"
  defines "e' \<equiv> snd (initMagicBeautify cv alloc
              (Some \<lparr> bitmapInfo_width = w, bitmapInfo_height = h, jni_storedBitmapPixels = Some px \<rparr>) e)"
  shows "\<And>i j. i < nat h \<Longrightarrow> j < nat w \<Longrightarrow>
           the (mIntegralMatrix e') ! (i * nat w + j)
           = prefix_sum (y_u64 (the (mImageData_yuv e'))) (nat w) i j"
    and "\<And>i j. i < nat h \<Longrightarrow> j < nat w \<Longrightarrow>
           the (mIntegralMatrixSqr e') ! (i * nat w + j)
           = prefix_sum (y2_u64 (the (mImageData_yuv e'))) (nat w) i j"
proof -
  have wh: "0 \<le> w" "0 \<le> h" using isSizeSafe_bounds [OF safe] by simp_all
  then have n: "nat (w * h) = nat w * nat h" by (simp add: nat_mult_distrib)
  note st = init_success [OF safe alloc len, of cv e, folded e'_def]
  let ?s = "\<lparr> columnSum = replicate (nat w) 0, columnSumSqr = replicate (nat w) 0,
              integralMatrix = replicate (nat (w * h)) 0,
              integralMatrixSqr = replicate (nat (w * h)) 0 \<rparr> :: integral_state"
  fix i j assume ij: "i < nat h" "j < nat w"
  show "the (mIntegralMatrix e') ! (i * nat w + j)
        = prefix_sum (y_u64 (the (mImageData_yuv e'))) (nat w) i j"
    using integral_loops_cells(1) [of ?s "nat w" "nat h" i j "RGBToYCbCr cv px (nat (w * h))"] ij
    by (simp add: st(5,12) n)
  show "the (mIntegralMatrixSqr e') ! (i * nat w + j)
        = prefix_sum (y2_u64 (the (mImageData_yuv e'))) (nat w) i j"
    using integral_loops_cells(2) [of ?s "nat w" "nat h" i j "RGBToYCbCr cv px (nat (w * h))"] ij
    by (simp add: st(5,13) n)
qed

lemma prefix_sum_const:
  fixes g :: "nat \<Rightarrow> u64"
  assumes "\<And>a b. a \<le> i \<Longrightarrow> b \<le> j \<Longrightarrow> g (a * w + b) = c"
  shows "prefix_sum g w i j = of_nat (Suc i * Suc j) * c"
proof -
  have "prefix_sum g w i j = (\<Sum>b<Suc j. \<Sum>a<Suc i. g (a * w + b))"
    by (simp add: prefix_sum_tbl tbl_sum_def col_sum_def)
  also have "\<dots> = (\<Sum>b<Suc j. \<Sum>a<Suc i. c)"
    by (intro sum.cong refl assms) simp_all
  also have "\<dots> = of_nat (Suc i * Suc j) * c"
    by (simp add: algebra_simps)
  finally show ?thesis .
qed

lemma spec_ycc_gray: "spec_RGBToYCbCr_pixel 0xFF808080 = (128, 128, 128)"
  by (simp add: spec_RGBToYCbCr_pixel_def Let_def round1000_def to_u8_def clamp_def)

lemma gray32_is: "gray32 = snd (initMagicBeautify spec_lib all_ok
    (Some \<lparr> bitmapInfo_width = 32, bitmapInfo_height = 32,
            jni_storedBitmapPixels = Some (replicate 1024 0xFF808080) \<rparr>) (MagicBeautify_ctor exact_fpu))"
  by (simp add: gray32_def initialized_with_def uniform_bitmap_def)

lemma gray32_luma:
  assumes "off < 1024"
  shows "luma (the (mImageData_yuv gray32)) off = 128"
proof -
  have y: "mImageData_yuv gray32 = Some (RGBToYCbCr spec_lib (replicate 1024 0xFF808080) 1024)"
    unfolding gray32_is
    using init_success(5) [OF isSizeSafe_32, of all_ok "replicate 1024 0xFF808080" spec_lib
        "MagicBeautify_ctor exact_fpu"]
    by (simp add: all_ok_def)
  show ?thesis
    using RGBToYCbCr_nth [of off 1024 "replicate 1024 0xFF808080" spec_lib] assms
    by (simp add: y luma_def spec_ycc_gray mult.commute)
qed

lemma gray32_cells:
  assumes "i < 32" and "j < 32"
  shows "the (mIntegralMatrix gray32) ! (i * 32 + j) = of_nat (Suc i * Suc j) * 128"
proof -
  have "the (mIntegralMatrix gray32) ! (i * nat 32 + j)
        = prefix_sum (y_u64 (the (mImageData_yuv gray32))) (nat 32) i j"
    unfolding gray32_is
    using assms by (intro init_tables(1) isSizeSafe_32) (simp_all add: all_ok_def)
  also have "\<dots> = of_nat (Suc i * Suc j) * 128"
  proof (rule prefix_sum_const)
    fix a b assume "a \<le> i" "b \<le> j"
    then have "a < 32" "b < 32" using assms by simp_all
    then have "a * 32 + b < 32 * 32" by (rule cell_in_image)
    then show "y_u64 (the (mImageData_yuv gray32)) (a * nat 32 + b) = 128"
      by (simp add: y_u64_def gray32_luma)
  qed
  finally show ?thesis by simp
qed

section \<open>The whitening curve in exact arithmetic\<close>

text \<open>
  \<open>\<lfloor>255 * log\<^sub>2 x\<rfloor> = n\<close> from two comparisons of integer powers: \<open>a / b \<le> x\<close> with
  \<open>2 ^ p \<le> (a / b) ^ q\<close> and \<open>n / 255 \<le> p / q\<close> for the lower bound, and the same from
  above with \<open>a' / b'\<close>, \<open>p'\<close> and \<open>q'\<close>.
\<close>

lemma log2_lower:
  fixes x :: real and a b p q n :: nat
  assumes b: "0 < b" and ax: "real a \<le> x * real b" and pw: "2 ^ p * b ^ q \<le> a ^ q"
    and nq: "n * q \<le> 255 * p" and q: "0 < q" and x: "0 < x"
  shows "real n \<le> 255 * (ln x / ln 2)"
proof -
  have l2: "0 < ln (2::real)" by simp
  have "(2::real) ^ p * real b ^ q = real (2 ^ p * b ^ q)" by simp
  also have "\<dots> \<le> real (a ^ q)" using pw by (simp only: of_nat_le_iff)
  also have "\<dots> = real a ^ q" by simp
  also have "\<dots> \<le> (x * real b) ^ q" using ax by (intro power_mono) simp_all
  also have "\<dots> = x ^ q * real b ^ q" by (simp add: power_mult_distrib)
  finally have "(2::real) ^ p \<le> x ^ q" using b by simp
  then have "ln ((2::real) ^ p) \<le> ln (x ^ q)"
    using x by (subst ln_le_cancel_iff) simp_all
  then have "real p * ln 2 \<le> real q * ln x"
    using x by (simp add: ln_realpow)
  then have pq: "real p \<le> real q * (ln x / ln 2)"
    using l2 by (simp add: pos_le_divide_eq)
  have "real n * real q \<le> 255 * real p"
    using nq by (metis of_nat_le_iff of_nat_mult of_nat_numeral)
  also have "\<dots> \<le> 255 * (real q * (ln x / ln 2))"
    using pq by simp
  also have "\<dots> = (255 * (ln x / ln 2)) * real q"
    by (simp only: mult.assoc mult.commute [of "real q"])
  finally have "real n * real q \<le> (255 * (ln x / ln 2)) * real q" .
  then show ?thesis using q by (intro mult_right_le_imp_le [of "real n" "real q"]) simp_all
qed

lemma log2_upper:
  fixes x :: real and a b p q n :: nat
  assumes b: "0 < b" and ax: "x * real b \<le> real a" and pw: "a ^ q < 2 ^ p * b ^ q"
    and nq: "255 * p \<le> n * q" and q: "0 < q" and x: "0 < x"
  shows "255 * (ln x / ln 2) < real n"
proof -
  have l2: "0 < ln (2::real)" by simp
  have "x ^ q * real b ^ q = (x * real b) ^ q" by (simp add: power_mult_distrib)
  also have "\<dots> \<le> real a ^ q" using ax x by (intro power_mono) simp_all
  also have "\<dots> = real (a ^ q)" by simp
  also have "\<dots> < real (2 ^ p * b ^ q)" using pw by (simp only: of_nat_less_iff)
  also have "\<dots> = (2::real) ^ p * real b ^ q" by simp
  finally have "x ^ q < (2::real) ^ p" using b by simp
  then have "ln (x ^ q) < ln ((2::real) ^ p)"
    using x by (subst ln_less_cancel_iff) simp_all
  then have "real q * ln x < real p * ln 2"
    using x by (simp add: ln_realpow)
  then have pq: "real q * (ln x / ln 2) < real p"
    using l2 by (simp add: pos_divide_less_eq)
  have "(255 * (ln x / ln 2)) * real q = 255 * (real q * (ln x / ln 2))"
    by (simp only: mult.assoc mult.commute [of "real q"])
  also have "\<dots> < 255 * real p" using pq by simp
  also have "\<dots> \<le> real n * real q"
    using nq by (metis of_nat_le_iff of_nat_mult of_nat_numeral)
  finally have "(255 * (ln x / ln 2)) * real q < real n * real q" .
  then show ?thesis by (rule mult_right_less_imp_less) simp
qed

lemma floor_255_log2:
  fixes x :: real and a b p q a' b' p' q' n :: nat
  assumes "0 < x"
    and "0 < b" "real a \<le> x * real b" "2 ^ p * b ^ q \<le> a ^ q" "n * q \<le> 255 * p" "0 < q"
    and "0 < b'" "x * real b' \<le> real a'" "a' ^ q' < 2 ^ p' * b' ^ q'" "255 * p' \<le> Suc n * q'" "0 < q'"
  shows "\<lfloor>255 * (ln x / ln 2)\<rfloor> = int n"
proof (rule floor_unique)
  show "of_int (int n) \<le> 255 * (ln x / ln 2)"
    using log2_lower [OF assms(2-6) assms(1)] by simp
  show "255 * (ln x / ln 2) < of_int (int n) + 1"
    using log2_upper [OF assms(7-11) assms(1)] by simp
qed

lemma whiten_channel_exact:
  "whiten_channel exact_fpu 2 (ln 2) c
   = word_of_int (clamp \<lfloor>255 * (ln (real_of_int (uint c) * 0.003921568627451 + 1) / ln 2)\<rfloor> 0 255)"
proof -
  have "0 \<le> uint c" by (rule unsigned_greater_eq)
  then have "0 \<le> real_of_int (uint c)" by (simp only: of_int_0_le_iff)
  then have "0 \<le> real_of_int (uint c) * 0.003921568627451"
    by (rule mult_nonneg_nonneg) simp
  then have "1 \<le> real_of_int (uint c) * 0.003921568627451 + 1" by simp
  then have "0 \<le> ln (real_of_int (uint c) * 0.003921568627451 + 1)" by (rule ln_ge_zero)
  then have "0 \<le> 255 * (ln (real_of_int (uint c) * 0.003921568627451 + 1) / ln 2)" by simp
  then show ?thesis
    by (simp add: whiten_channel_def exact_fpu_def)
qed

lemma whiten_exact_128: "whiten_channel exact_fpu 2 (ln 2) 128 = 149"
proof -
  have "\<lfloor>255 * (ln (128 * 0.003921568627451 + 1 :: real) / ln 2)\<rfloor> = int 149"
    by (rule floor_255_log2 [where a = 3 and b = 2 and p = 31 and q = 53
          and a' = 221 and b' = 147 and p' = 10 and q' = 17]) simp_all
  then show ?thesis by (simp add: whiten_channel_exact clamp_def)
qed

lemma whiten_exact_192: "whiten_channel exact_fpu 2 (ln 2) 192 = 206"
proof -
  have "\<lfloor>255 * (ln (192 * 0.003921568627451 + 1 :: real) / ln 2)\<rfloor> = int 206"
    by (rule floor_255_log2 [where a = 149 and b = 85 and p = 17 and q = 21
          and a' = 107 and b' = 61 and p' = 30 and q' = 37]) simp_all
  then show ?thesis by (simp add: whiten_channel_exact clamp_def)
qed

lemma whiten_exact_144: "whiten_channel exact_fpu 2 (ln 2) 144 = 164"
proof -
  have "\<lfloor>255 * (ln (144 * 0.003921568627451 + 1 :: real) / ln 2)\<rfloor> = int 164"
    by (rule floor_255_log2 [where a = 61 and b = 39 and p = 20 and q = 31
          and a' = 36 and b' = 23 and p' = 11 and q' = 17]) simp_all
  then show ?thesis by (simp add: whiten_channel_exact clamp_def)
qed

lemma whiten_exact_120: "whiten_channel exact_fpu 2 (ln 2) 120 = 141"
proof -
  have "\<lfloor>255 * (ln (120 * 0.003921568627451 + 1 :: real) / ln 2)\<rfloor> = int 141"
    by (rule floor_255_log2 [where a = 25 and b = 17 and p = 5 and q = 9
          and a' = 203 and b' = 138 and p' = 49 and q' = 88]) simp_all
  then show ?thesis by (simp add: whiten_channel_exact clamp_def)
qed

lemma whiten_pixel_exact_gray: "whiten_pixel exact_fpu spec_lib 2 0xFF808080 = 0xFF959595"
proof -
  have l: "f_logf exact_fpu 2 = ln 2" by (simp add: exact_fpu_def)
  have c: "spec_convertIntToArgb 0xFF808080 = \<lparr> alpha = 0xFF, red = 0x80, green = 0x80, blue = 0x80 \<rparr>"
    by (simp add: spec_convertIntToArgb_def)
  show ?thesis
    by (simp add: whiten_pixel_def l c whiten_exact_128 spec_convertArgbToInt_def)
qed

lemma whiten_pixel_exact_skin: "whiten_pixel exact_fpu spec_lib 2 0xFFC09078 = 0xFFCEA48D"
proof -
  have l: "f_logf exact_fpu 2 = ln 2" by (simp add: exact_fpu_def)
  have c: "spec_convertIntToArgb 0xFFC09078 = \<lparr> alpha = 0xFF, red = 0x78, green = 0x90, blue = 0xC0 \<rparr>"
    by (simp add: spec_convertIntToArgb_def)
  show ?thesis
    by (simp add: whiten_pixel_def l c whiten_exact_192 whiten_exact_144 whiten_exact_120
          spec_convertArgbToInt_def)
qed

lemma isSizeSafe_64: "isSizeSafe 64 64"
  by (simp add: isSizeSafe_def MIN_BEAUTY_DIMENSION_def MAX_BEAUTY_DIMENSION_def MAX_BEAUTY_PIXELS_def)

lemma gray64_facts:
  "mInitialized gray64" "buffers_ok gray64"
  "storedBitmapPixels gray64 = Some (replicate 4096 0xFF808080)"
  "mImageData_rgb gray64 = Some (replicate 4096 0xFF808080)"
  "mSkinMatrix gray64 = Some (replicate 4096 (skin_byte spec_lib 0xFF808080))"
  "mImageWidth gray64 = 64" "mImageHeight gray64 = 64"
  "mSmoothLevel gray64 = 0" "mWhitenLevel gray64 = 0"
  using initialized_with_uniform [OF isSizeSafe_64, of spec_lib "0xFF808080"]
  by (simp_all add: gray64_def)

text \<open>
  C6, scenario S1 in exact arithmetic: every pixel of the whitened mid-gray image is
  \<^verbatim>\<open>0xFF959595\<close>. Alpha stays \<open>0xFF\<close>, and each colour byte is \<open>0x95 = 149\<close>, the integer
  part of \<open>255 * log\<^sub>2 (1 + 128 * 0.003921568627451) = 149.64...\<close>: it is 3 away from
  152, so it is not 152 within 1.
\<close>

theorem C6_gray_whitens_to_149:
  "fst (startWhiteSkin exact_fpu spec_lib 2 gray64) = BEAUTY_SUCCESS \<and>
   storedBitmapPixels (snd (startWhiteSkin exact_fpu spec_lib 2 gray64)) = Some (replicate 4096 0xFF959595) \<and>
   uint (alpha (spec_convertIntToArgb 0xFF959595)) = 255 \<and>
   uint (red (spec_convertIntToArgb 0xFF959595)) = 149 \<and>
   uint (green (spec_convertIntToArgb 0xFF959595)) = 149 \<and>
   uint (blue (spec_convertIntToArgb 0xFF959595)) = 149 \<and>
   \<bar>149 - 152 :: int\<bar> = 3"
proof -
  have r: "whiten_in_range exact_fpu 2" "\<not> log_is_zero exact_fpu 2"
    by (simp_all add: exact_in_range)
  have c: "spec_convertIntToArgb 0xFF959595 = \<lparr> alpha = 0xFF, red = 0x95, green = 0x95, blue = 0x95 \<rparr>"
    by (simp add: spec_convertIntToArgb_def)
  show ?thesis
    using p_startBeauty_run(1) [OF gray64_facts(1), of exact_fpu spec_lib "mSmoothLevel gray64" 2]
      p_startBeauty_out_whitened [OF gray64_facts(1,2) r, of spec_lib "mSmoothLevel gray64"]
    by (simp add: startWhiteSkin_def gray64_facts(4) whiten_pixel_exact_gray c)
qed

text \<open>
  Whitening at 2.0 and then at 1.0 on the mid-gray image: the second call writes
  nothing, and the output keeps the whitened pixels, which are not those of the RGB
  copy.
\<close>

theorem C7_whiten_one_keeps_earlier_whitening:
  "fst (startWhiteSkin exact_fpu spec_lib 1 (snd (startWhiteSkin exact_fpu spec_lib 2 gray32)))
     = BEAUTY_SUCCESS \<and>
   storedBitmapPixels (snd (startWhiteSkin exact_fpu spec_lib 1 (snd (startWhiteSkin exact_fpu spec_lib 2 gray32))))
     = Some (replicate 1024 0xFF959595) \<and>
   mImageData_rgb (snd (startWhiteSkin exact_fpu spec_lib 1 (snd (startWhiteSkin exact_fpu spec_lib 2 gray32))))
     = Some (replicate 1024 0xFF808080)"
proof -
  define e1 where "e1 = snd (startWhiteSkin exact_fpu spec_lib 2 gray32)"
  have r: "whiten_in_range exact_fpu 2" "\<not> log_is_zero exact_fpu 2"
    by (simp_all add: exact_in_range)
  have o1: "storedBitmapPixels e1 = Some (replicate 1024 0xFF959595)"
    using p_startBeauty_out_whitened [OF gray32_facts(1,2) r, of spec_lib "mSmoothLevel gray32"]
    by (simp add: e1_def startWhiteSkin_def gray32_facts(4) whiten_pixel_exact_gray)
  have i1: "mInitialized e1"
    unfolding e1_def by (rule startWhiteSkin_state(1) [OF gray32_facts(1,2) r(1)])
  have s1: "mSmoothLevel e1 = 0"
    using p_startBeauty_run(9) [OF gray32_facts(1), of exact_fpu spec_lib "mSmoothLevel gray32" 2]
    by (simp add: e1_def startWhiteSkin_def gray32_facts(8))
  have rgb1: "mImageData_rgb e1 = Some (replicate 1024 0xFF808080)"
    by (simp add: e1_def startWhiteSkin_state(4) [OF gray32_facts(1,2) r(1)] gray32_facts(4))
  have z: "\<not> whiten_in_range exact_fpu 1 \<or> log_is_zero exact_fpu 1"
    by (simp add: exact_in_range)
  have "storedBitmapPixels (snd (startWhiteSkin exact_fpu spec_lib 1 e1)) = storedBitmapPixels e1"
    using p_startBeauty_out_not_whitened [OF i1 z, of spec_lib "mSmoothLevel e1"]
    by (simp add: startWhiteSkin_def s1 exact_in_range)
  moreover have "mImageData_rgb (snd (startWhiteSkin exact_fpu spec_lib 1 e1)) = mImageData_rgb e1"
    by (simp add: startWhiteSkin_def p_startBeauty_keeps)
  moreover have "fst (startWhiteSkin exact_fpu spec_lib 1 e1) = BEAUTY_SUCCESS"
    using p_startBeauty_run(1) [OF i1, of exact_fpu spec_lib "mSmoothLevel e1" 1]
    by (simp add: startWhiteSkin_def)
  ultimately show ?thesis by (simp add: o1 rgb1 e1_def [symmetric])
qed


text \<open>
  The pixel loop writes Y bytes only: after a smoothing pass, a pixel of the output is
  the conversion of some luminance byte and of the chroma bytes of the RGB copy's pixel.
\<close>

lemma smooth_loops_chroma:
  assumes "0 \<le> w" and "c = 1 \<or> c = 2"
  shows "smooth_loops fp I Q skin w h radius s yuv ! (3 * p + c) = yuv ! (3 * p + c)"
proof (rule smooth_loops_nth)
  fix a b :: int
  assume ab: "1 \<le> a" "1 \<le> b"
  have "0 \<le> a * w + b" using ab assms(1) by simp
  then have "nat ((a * w + b) * 3) = 3 * nat (a * w + b)"
    by (simp add: nat_mult_distrib)
  moreover have "3 * p + c \<noteq> 3 * X" for X :: nat
    using assms(2) by presburger
  ultimately show "3 * p + c \<noteq> nat ((a * w + b) * 3)" by simp
qed

lemma p_startSkinSmooth_pixel:
  assumes ok: "buffers_ok e" and p: "p < nat (mImageWidth e * mImageHeight e)"
  shows "\<exists>y. the (storedBitmapPixels (p_startSkinSmooth fp cv s e)) ! p
              = YCbCrToRGB_pixel cv
                  (y, fst (snd (RGBToYCbCr_pixel cv (the (mImageData_rgb e) ! p))),
                      snd (snd (RGBToYCbCr_pixel cv (the (mImageData_rgb e) ! p))))
                  (the (storedBitmapPixels e) ! p)"
proof -
  let ?w = "mImageWidth e" and ?h = "mImageHeight e"
  from ok obtain rgb yuv skin I Q out where b:
    "mImageData_rgb e = Some rgb" "mImageData_yuv e = Some yuv" "mSkinMatrix e = Some skin"
    "mIntegralMatrix e = Some I" "mIntegralMatrixSqr e = Some Q" "storedBitmapPixels e = Some out"
    "length rgb = nat (?w * ?h)" "length out = nat (?w * ?h)" "0 \<le> ?w" "0 \<le> ?h"
    by (rule buffers_okD)
  let ?n = "nat (?w * ?h)"
  let ?yuv0 = "RGBToYCbCr cv rgb ?n"
  let ?yuv1 = "smooth_loops fp I Q skin ?w ?h (smooth_radius fp ?w ?h) s ?yuv0"
  have "storedBitmapPixels (p_startSkinSmooth fp cv s e) = Some (YCbCrToRGB cv ?yuv1 out ?n)"
    using b by (simp add: p_startSkinSmooth_def Let_def)
  then have out': "the (storedBitmapPixels (p_startSkinSmooth fp cv s e)) ! p
        = YCbCrToRGB_pixel cv (?yuv1 ! (3 * p), ?yuv1 ! (3 * p + 1), ?yuv1 ! (3 * p + 2)) (out ! p)"
    using YCbCrToRGB_nth [of p ?n out cv ?yuv1] p b(8) by simp
  have c1: "?yuv1 ! (3 * p + 1) = ?yuv0 ! (3 * p + 1)" and c2: "?yuv1 ! (3 * p + 2) = ?yuv0 ! (3 * p + 2)"
    by (rule smooth_loops_chroma [OF b(9)]; simp)+
  have "(?yuv0 ! (3 * p), ?yuv0 ! (3 * p + 1), ?yuv0 ! (3 * p + 2)) = RGBToYCbCr_pixel cv (rgb ! p)"
    using p b(7) by (intro RGBToYCbCr_nth) simp_all
  then have "fst (snd (RGBToYCbCr_pixel cv (rgb ! p))) = ?yuv0 ! (3 * p + 1)"
    "snd (snd (RGBToYCbCr_pixel cv (rgb ! p))) = ?yuv0 ! (3 * p + 2)"
    by (metis fst_conv snd_conv)+
  then show ?thesis
    using out' c1 c2 b(1,6) by auto
qed

lemma uint_to_u8: "uint (to_u8 x) = clamp x 0 255"
proof -
  have "0 \<le> clamp x 0 255" "clamp x 0 255 < 256" by (simp_all add: clamp_def)
  then show ?thesis by (simp add: to_u8_def uint_word_of_int)
qed

lemma spec_pixel_bytes:
  fixes R G B :: u8 and old :: u32
  shows "(ucast (drop_bit 24 (push_bit 24 (drop_bit 24 old) OR push_bit 16 (ucast R) OR push_bit 8 (ucast G) OR ucast B)) :: u8)
           = ucast (drop_bit 24 old)"
    and "(ucast (drop_bit 16 (push_bit 24 (drop_bit 24 old) OR push_bit 16 (ucast R) OR push_bit 8 (ucast G) OR ucast B)) :: u8) = R"
    and "(ucast (push_bit 24 (drop_bit 24 old) OR push_bit 16 (ucast R) OR push_bit 8 (ucast G) OR ucast B) :: u8) = B"
  by (rule bit_word_eqI; auto simp: bit_simps dest: bit_imp_le_length)+

lemma spec_YCbCrToRGB_pixel_bytes:
  "(ucast (drop_bit 24 (spec_YCbCrToRGB_pixel (y, cb, cr) old)) :: u8) = ucast (drop_bit 24 old)"
  "(ucast (drop_bit 16 (spec_YCbCrToRGB_pixel (y, cb, cr) old)) :: u8)
     = to_u8 (round1000 (1000 * uint y + 1402 * (uint cr - 128)))"
  "(ucast (spec_YCbCrToRGB_pixel (y, cb, cr) old) :: u8)
     = to_u8 (round1000 (1000 * uint y + 1772 * (uint cb - 128)))"
  unfolding spec_YCbCrToRGB_pixel_def Let_def prod.case by (rule spec_pixel_bytes)+

lemma spec_ycc_skin: "spec_RGBToYCbCr_pixel 0xFFC09078 = (156, 108, 154)"
  by (simp add: spec_RGBToYCbCr_pixel_def Let_def round1000_def to_u8_def clamp_def)

text \<open>
  With the chroma of \<^verbatim>\<open>0xFFC09078\<close> no luminance byte reconstructs the whitened pixel
  \<^verbatim>\<open>0xFFCEA48D\<close>: byte 2 would need Y = 170, byte 0 would need Y = 176.
\<close>

lemma skin_chroma_never_whitened:
  "spec_YCbCrToRGB_pixel (y, 108, 154) old \<noteq> 0xFFCEA48D"
proof
  assume eq: "spec_YCbCrToRGB_pixel (y, 108, 154) old = 0xFFCEA48D"
  let ?R = "to_u8 (round1000 (1000 * uint y + 1402 * 26))"
  let ?B = "to_u8 (round1000 (1000 * uint y + 1772 * (- 20)))"
  have "(ucast (drop_bit 16 (spec_YCbCrToRGB_pixel (y, 108, 154) old)) :: u8) = ?R"
    by (simp add: spec_YCbCrToRGB_pixel_bytes)
  then have "?R = 206" by (simp add: eq)
  then have "uint ?R = 206" by simp
  then have r: "clamp (round1000 (1000 * uint y + 1402 * 26)) 0 255 = 206"
    by (simp only: uint_to_u8)
  have "(ucast (spec_YCbCrToRGB_pixel (y, 108, 154) old) :: u8) = ?B"
    by (simp add: spec_YCbCrToRGB_pixel_bytes)
  then have "?B = 141" by (simp add: eq)
  then have "uint ?B = 141" by simp
  then have b: "clamp (round1000 (1000 * uint y + 1772 * (- 20))) 0 255 = 141"
    by (simp only: uint_to_u8)
  from r b show False
    by (simp add: clamp_def round1000_def split: if_splits)
qed


text \<open>
  Whitening at 2.0 and then smoothing at 100 on the skin-tone image, at the interior
  skin pixel 33 (row 1, column 1): the output holds the whitened pixel \<^verbatim>\<open>0xFFCEA48D\<close>,
  as after the whitening call, and not what the smoothing pass writes there.
\<close>

theorem C1_whitening_survives_smoothing:
  "the (mSkinMatrix skin32) ! 33 = 255 \<and>
   the (storedBitmapPixels (snd (startWhiteSkin exact_fpu spec_lib 2 skin32))) ! 33 = 0xFFCEA48D \<and>
   the (storedBitmapPixels
          (snd (startSkinSmooth exact_fpu spec_lib 100 (snd (startWhiteSkin exact_fpu spec_lib 2 skin32))))) ! 33
     = 0xFFCEA48D \<and>
   the (storedBitmapPixels
          (p_startSkinSmooth exact_fpu spec_lib 100 (snd (startWhiteSkin exact_fpu spec_lib 2 skin32)))) ! 33
     \<noteq> 0xFFCEA48D"
proof -
  define e1 where "e1 = snd (startWhiteSkin exact_fpu spec_lib 2 skin32)"
  have r: "whiten_in_range exact_fpu 2" "\<not> log_is_zero exact_fpu 2" "smooth_in_range exact_fpu 100"
    by (simp_all add: exact_in_range)
  note st = startWhiteSkin_state [OF skin32_facts(1,2) r(1), of spec_lib, folded e1_def]
  have sk: "the (mSkinMatrix skin32) ! 33 = 255"
    by (simp add: skin32_facts skin_byte_def spec_convertIntToArgb_def isSkin_def)
  have o1: "storedBitmapPixels e1 = Some (replicate 1024 0xFFCEA48D)"
    using p_startBeauty_out_whitened [OF skin32_facts(1,2) r(1,2), of spec_lib "mSmoothLevel skin32"]
    by (simp add: e1_def startWhiteSkin_def skin32_facts(4) whiten_pixel_exact_skin)
  have rgb1: "mImageData_rgb e1 = Some (replicate 1024 0xFFC09078)"
    by (simp add: st(4) skin32_facts(4))
  have h: "whiten_in_range exact_fpu (mWhitenLevel e1)" "\<not> log_is_zero exact_fpu (mWhitenLevel e1)"
    using r by (simp_all add: st(3))
  have o2: "storedBitmapPixels (snd (startSkinSmooth exact_fpu spec_lib 100 e1))
            = Some (replicate 1024 0xFFCEA48D)"
    using p_startBeauty_out_whitened [OF st(1,2) h, of spec_lib 100]
    by (simp add: startSkinSmooth_def st(3) rgb1 whiten_pixel_exact_skin)
  have n: "(33::nat) < nat (mImageWidth e1 * mImageHeight e1)"
    by (simp add: st(5,6) skin32_facts(6,7))
  obtain y where "the (storedBitmapPixels (p_startSkinSmooth exact_fpu spec_lib 100 e1)) ! 33
      = spec_YCbCrToRGB_pixel (y, 108, 154) 0xFFCEA48D"
    using p_startSkinSmooth_pixel [OF st(2) n, of exact_fpu spec_lib 100]
    by (auto simp: rgb1 o1 spec_ycc_skin)
  then have "the (storedBitmapPixels (p_startSkinSmooth exact_fpu spec_lib 100 e1)) ! 33 \<noteq> 0xFFCEA48D"
    by (simp add: skin_chroma_never_whitened)
  then show ?thesis
    using sk o1 o2 by (simp add: e1_def [symmetric])
qed

section \<open>The alpha channel\<close>

lemma whiten_pixel_alpha:
  assumes "lib_keeps_alpha cv"
  shows "alpha_byte (whiten_pixel fp cv l p) = alpha_byte p"
  using assms by (simp add: lib_keeps_alpha_def whiten_pixel_def Let_def)

lemma p_startWhiteSkin_alpha_kept:
  assumes lib: "lib_keeps_alpha cv" and inv: "alpha_kept e"
  shows "alpha_kept (p_startWhiteSkin fp cv l e)"
proof (cases "storedBitmapPixels e = None \<or> mImageData_rgb e = None \<or> log_is_zero fp l")
  case True
  then show ?thesis
    using inv by (auto simp: p_startWhiteSkin_def log_is_zero_def)
next
  case False
  then obtain rgb out where b: "mImageData_rgb e = Some rgb" "storedBitmapPixels e = Some out"
    by auto
  with inv have len: "length rgb = nat (mImageWidth e * mImageHeight e)" "length out = length rgb"
    by (simp_all add: alpha_kept_def)
  have "storedBitmapPixels (p_startWhiteSkin fp cv l e) = Some (map (whiten_pixel fp cv l) rgb)"
    using False b len
      fold_update_nth [of rgb "nat (mImageWidth e * mImageHeight e)" out "whiten_pixel fp cv l"]
    by (simp add: p_startWhiteSkin_def log_is_zero_def Let_def)
  then show ?thesis
    using b len by (simp add: alpha_kept_def p_startWhiteSkin_fields whiten_pixel_alpha [OF lib] comp_def)
qed

lemma YCbCrToRGB_alpha:
  assumes "lib_keeps_alpha cv"
  shows "map alpha_byte (YCbCrToRGB cv From To n) = map alpha_byte To"
proof (rule nth_equalityI)
  show "length (map alpha_byte (YCbCrToRGB cv From To n)) = length (map alpha_byte To)"
    by (simp add: length_YCbCrToRGB)
next
  fix i assume "i < length (map alpha_byte (YCbCrToRGB cv From To n))"
  then have i: "i < length To" by (simp add: length_YCbCrToRGB)
  show "map alpha_byte (YCbCrToRGB cv From To n) ! i = map alpha_byte To ! i"
  proof (cases "i < n")
    case True
    then show ?thesis
      using i assms by (simp add: length_YCbCrToRGB YCbCrToRGB_nth lib_keeps_alpha_def)
  next
    case False
    then show ?thesis
      using i by (simp add: length_YCbCrToRGB YCbCrToRGB_def nth_append min_def)
  qed
qed

lemma p_startSkinSmooth_alpha_kept:
  assumes lib: "lib_keeps_alpha cv" and inv: "alpha_kept e"
  shows "alpha_kept (p_startSkinSmooth fp cv s e)"
proof (cases "mIntegralMatrix e = None \<or> mIntegralMatrixSqr e = None \<or> mSkinMatrix e = None \<or>
              mImageData_yuv e = None \<or> storedBitmapPixels e = None \<or> mImageData_rgb e = None")
  case True
  then show ?thesis
    using inv by (auto simp: p_startSkinSmooth_def)
next
  case False
  then obtain rgb out where b: "mImageData_rgb e = Some rgb" "storedBitmapPixels e = Some out"
    by auto
  show ?thesis
    using False b inv
    by (simp add: alpha_kept_def p_startSkinSmooth_def Let_def YCbCrToRGB_alpha [OF lib]
          length_YCbCrToRGB)
qed

lemma alpha_kept_levels [simp]:
  "alpha_kept (e\<lparr> mSmoothLevel := s \<rparr>) = alpha_kept e"
  "alpha_kept (e\<lparr> mWhitenLevel := l \<rparr>) = alpha_kept e"
  by (simp_all add: alpha_kept_def split: option.splits)

lemma p_startBeauty_alpha_kept:
  assumes "lib_keeps_alpha cv" and "alpha_kept e"
  shows "alpha_kept (snd (p_startBeauty fp cv s l e))"
  using assms
  by (simp add: p_startBeauty_def Let_def p_startSkinSmooth_alpha_kept p_startWhiteSkin_alpha_kept)


lemma initIntegral_fields:
  assumes "initIntegral alloc e = Some e'"
  shows "mImageData_rgb e' = mImageData_rgb e" "storedBitmapPixels e' = storedBitmapPixels e"
    "mImageWidth e' = mImageWidth e" "mImageHeight e' = mImageHeight e"
  using assms by (auto simp: initIntegral_def Let_def split: if_splits)

lemma init_after_alloc:
  fixes cv :: bitmap_lib and e :: "'f MagicBeautify"
  assumes safe: "isSizeSafe w h"
    and alloc: "alloc 0" "alloc 1" "alloc 2" "alloc 3" "alloc 4"
    and len: "length px = nat (w * h)"
  defines "r \<equiv> initMagicBeautify cv alloc
              (Some \<lparr> bitmapInfo_width = w, bitmapInfo_height = h, jni_storedBitmapPixels = Some px \<rparr>) e"
  shows "mImageData_rgb (snd r) = Some px" and "storedBitmapPixels (snd r) = Some px"
    and "mImageWidth (snd r) = w" and "mImageHeight (snd r) = h"
proof -
  let ?n = "nat (w * h)"
  let ?e1 = "(freeAllMemory e)\<lparr> storedBitmapPixels := Some px, mImageWidth := w, mImageHeight := h \<rparr>"
  let ?e2 = "?e1\<lparr> mImageData_rgb := Some (replicate ?n 0),
               mImageData_yuv := Some (replicate (?n * 3) 0),
               mSkinMatrix := Some (replicate ?n 0),
               mIntegralMatrix := Some (replicate ?n 0),
               mIntegralMatrixSqr := Some (replicate ?n 0) \<rparr>"
  let ?e4 = "?e2\<lparr> mImageData_rgb := Some px, mImageData_yuv := Some (RGBToYCbCr cv px ?n) \<rparr>"
  let ?e5 = "initSkinMatrix cv ?e4"
  have ta: "try_allocate alloc ?n ?e1 = (True, ?e2)"
    using alloc by (simp add: try_allocate_def Let_def)
  have e5: "mImageData_rgb ?e5 = Some px" "storedBitmapPixels ?e5 = Some px"
    "mImageWidth ?e5 = w" "mImageHeight ?e5 = h"
    by (simp_all add: initSkinMatrix_fields freeAllMemory_def)
  have "mImageData_rgb (snd r) = Some px \<and> storedBitmapPixels (snd r) = Some px \<and>
        mImageWidth (snd r) = w \<and> mImageHeight (snd r) = h"
  proof (cases "initIntegral alloc ?e5")
    case None
    then have "r = (Threw_bad_alloc, ?e5)"
      using safe ta len by (simp add: r_def initMagicBeautify_def Let_def)
    then show "mImageData_rgb (snd r) = Some px \<and> storedBitmapPixels (snd r) = Some px \<and>
               mImageWidth (snd r) = w \<and> mImageHeight (snd r) = h"
      using e5 by simp
  next
    case (Some e6)
    then have "r = (Returned BEAUTY_SUCCESS, e6\<lparr> mInitialized := True \<rparr>)"
      using safe ta len by (simp add: r_def initMagicBeautify_def Let_def)
    then show "mImageData_rgb (snd r) = Some px \<and> storedBitmapPixels (snd r) = Some px \<and>
               mImageWidth (snd r) = w \<and> mImageHeight (snd r) = h"
      using e5 initIntegral_fields [OF Some] by simp
  qed
  then show "mImageData_rgb (snd r) = Some px" "storedBitmapPixels (snd r) = Some px"
    "mImageWidth (snd r) = w" "mImageHeight (snd r) = h"
    by simp_all
qed

lemma init_alpha_kept:
  assumes inv: "alpha_kept e" and ok: "op_ok (Initialize alloc d)"
  shows "alpha_kept (snd (initMagicBeautify cv alloc d e))"
proof (cases d)
  case None
  then show ?thesis using inv by (simp add: initMagicBeautify_def)
next
  case (Some b)
  show ?thesis
  proof (cases "jni_storedBitmapPixels b")
    case None
    then show ?thesis using inv Some by (simp add: initMagicBeautify_def)
  next
    case (Some px)
    obtain w h where wh: "w = bitmapInfo_width b" "h = bitmapInfo_height b" by simp
    have b: "b = \<lparr> bitmapInfo_width = w, bitmapInfo_height = h, jni_storedBitmapPixels = Some px \<rparr>"
      using Some wh by simp
    have len: "length px = nat (w * h)"
      using ok \<open>d = Some b\<close> Some wh by (simp add: descriptor_ok_def)
    show ?thesis
    proof (cases "isSizeSafe w h")
      case False
      then show ?thesis
        using inv init_unsafe_size [OF False, of cv alloc px e] \<open>d = Some b\<close> b by simp
    next
      case True
      show ?thesis
      proof (cases "alloc 0 \<and> alloc 1 \<and> alloc 2 \<and> alloc 3 \<and> alloc 4")
        case False
        then show ?thesis
          using init_alloc_fail [OF True False, of cv px e] \<open>d = Some b\<close> b
          by (simp add: alpha_kept_def freeAllMemory_def)
      next
        case a: True
        then have "alloc 0" "alloc 1" "alloc 2" "alloc 3" "alloc 4" by simp_all
        from init_after_alloc [OF True this len, of cv e] show ?thesis
          using \<open>d = Some b\<close> b len by (simp add: alpha_kept_def)
      qed
    qed
  qed
qed

lemma run_op_alpha_kept:
  assumes "lib_keeps_alpha cv" and "alpha_kept e" and "op_ok x"
  shows "alpha_kept (run_op fp cv x e)"
proof (cases x)
  case (Initialize alloc d)
  then show ?thesis using assms(2,3) by (simp add: init_alpha_kept)
next
  case (ApplyWhiten l)
  then show ?thesis
    using assms(1,2) by (simp add: startWhiteSkin_def p_startBeauty_alpha_kept)
next
  case (ApplySmooth s)
  then show ?thesis
    using assms(1,2) by (simp add: startSkinSmooth_def p_startBeauty_alpha_kept)
qed

lemma run_ops_alpha_kept:
  assumes "lib_keeps_alpha cv" and "list_all op_ok ops" and "alpha_kept e"
  shows "alpha_kept (run_ops fp cv ops e)"
  using assms(2,3) unfolding run_ops_def
proof (induction ops arbitrary: e)
  case Nil
  then show ?case by simp
next
  case (Cons x ops)
  then show ?case
    using run_op_alpha_kept [OF assms(1), of e x fp] by simp
qed

lemma spec_lib_keeps_alpha: "lib_keeps_alpha spec_lib"
proof -
  have a: "alpha_byte (spec_convertArgbToInt c) = alpha c" for c
    unfolding alpha_byte_def spec_convertArgbToInt_def
    by (rule bit_word_eqI) (auto simp: bit_simps dest: bit_imp_le_length)
  have b: "alpha_byte (spec_YCbCrToRGB_pixel ycc old) = alpha_byte old" for ycc old
    by (cases ycc) (simp add: alpha_byte_def spec_YCbCrToRGB_pixel_bytes)
  show ?thesis
    by (simp add: lib_keeps_alpha_def a b) (simp add: spec_convertIntToArgb_def alpha_byte_def)
qed

text \<open>
  C8. With helpers that treat alpha as the spec says, and descriptors that hold as
  many pixels as they announce: after any sequence of \<^verbatim>\<open>initMagicBeautify\<close>,
  \<^verbatim>\<open>startWhiteSkin\<close> and \<^verbatim>\<open>startSkinSmooth\<close> calls on a freshly constructed engine,
  whatever the levels and whichever allocations fail, every pixel of the output buffer
  has the alpha byte of the same pixel of the RGB copy.
\<close>

theorem C8_alpha_preserved:
  assumes "lib_keeps_alpha cv" and "list_all op_ok ops"
    and "mImageData_rgb (run_ops fp cv ops (MagicBeautify_ctor fp)) = Some rgb"
    and "storedBitmapPixels (run_ops fp cv ops (MagicBeautify_ctor fp)) = Some out"
    and "i < length out"
  shows "alpha_byte (out ! i) = alpha_byte (rgb ! i) \<and> length out = length rgb"
proof -
  have "alpha_kept (MagicBeautify_ctor fp)"
    by (simp add: alpha_kept_def MagicBeautify_ctor_def)
  then have "alpha_kept (run_ops fp cv ops (MagicBeautify_ctor fp))"
    by (rule run_ops_alpha_kept [OF assms(1,2)])
  then have "length out = length rgb" "map alpha_byte out = map alpha_byte rgb"
    using assms(3,4) by (simp_all add: alpha_kept_def)
  then show ?thesis
    using assms(5) by (metis nth_map)
qed


theorem C8_alpha_preserved_witness:
  "lib_keeps_alpha spec_lib \<and>
   list_all op_ok [Initialize all_ok (Some (uniform_bitmap 32 32 0xFF808080)), ApplyWhiten 2, ApplySmooth 100] \<and>
   mImageData_rgb (run_ops exact_fpu spec_lib
       [Initialize all_ok (Some (uniform_bitmap 32 32 0xFF808080)), ApplyWhiten 2, ApplySmooth 100]
       (MagicBeautify_ctor exact_fpu)) = Some (replicate 1024 0xFF808080) \<and>
   storedBitmapPixels (run_ops exact_fpu spec_lib
       [Initialize all_ok (Some (uniform_bitmap 32 32 0xFF808080)), ApplyWhiten 2, ApplySmooth 100]
       (MagicBeautify_ctor exact_fpu)) = Some (replicate 1024 0xFF959595) \<and>
   alpha_byte (replicate 1024 0xFF959595 ! 7) = alpha_byte (replicate 1024 0xFF808080 ! 7)"
proof -
  let ?ops = "[Initialize all_ok (Some (uniform_bitmap 32 32 0xFF808080)), ApplyWhiten 2, ApplySmooth 100]
                :: real engine_op list"
  define e1 where "e1 = snd (startWhiteSkin exact_fpu spec_lib 2 gray32)"
  have run: "run_ops exact_fpu spec_lib ?ops (MagicBeautify_ctor exact_fpu)
             = snd (startSkinSmooth exact_fpu spec_lib 100 e1)"
    by (simp add: run_ops_def e1_def gray32_def initialized_with_def)
  have r: "whiten_in_range exact_fpu 2" "\<not> log_is_zero exact_fpu 2"
    by (simp_all add: exact_in_range)
  note st = startWhiteSkin_state [OF gray32_facts(1,2) r(1), of spec_lib, folded e1_def]
  have rgb1: "mImageData_rgb e1 = Some (replicate 1024 0xFF808080)"
    by (simp add: st(4) gray32_facts(4))
  have h: "whiten_in_range exact_fpu (mWhitenLevel e1)" "\<not> log_is_zero exact_fpu (mWhitenLevel e1)"
    using r by (simp_all add: st(3))
  have out: "storedBitmapPixels (snd (startSkinSmooth exact_fpu spec_lib 100 e1))
            = Some (replicate 1024 0xFF959595)"
    using p_startBeauty_out_whitened [OF st(1,2) h, of spec_lib 100]
    by (simp add: startSkinSmooth_def st(3) rgb1 whiten_pixel_exact_gray)
  have rgb: "mImageData_rgb (snd (startSkinSmooth exact_fpu spec_lib 100 e1))
            = Some (replicate 1024 0xFF808080)"
    by (simp add: startSkinSmooth_def p_startBeauty_keeps rgb1)
  have ok: "list_all op_ok ?ops"
    by (simp add: descriptor_ok_def uniform_bitmap_def)
  have i: "(7::nat) < length (replicate 1024 (0xFF959595 :: u32))" by simp
  show ?thesis
    using spec_lib_keeps_alpha ok rgb out
      C8_alpha_preserved [OF spec_lib_keeps_alpha ok rgb [folded run] out [folded run] i, THEN conjunct1]
    by (simp only: run) simp
qed

section \<open>The whitening curve in accurate float arithmetic\<close>

lemma in_range_moderate: "1 / 1000 \<le> r \<Longrightarrow> r \<le> 1000 \<Longrightarrow> in_range r"
proof -
  assume a: "1 / 1000 \<le> r" "r \<le> 1000"
  have "(1::real) / 2 ^ 126 \<le> 1 / 1000" by simp
  moreover have "(1000::real) \<le> 2 ^ 127" by simp
  ultimately have "1 / 2 ^ 126 \<le> \<bar>r\<bar> \<and> \<bar>r\<bar> \<le> 2 ^ 127"
    using a by linarith
  then show ?thesis by (simp only: in_range_def) blast
qed

lemma rep_within:
  assumes "rep val eps a r" and "0 \<le> eps" and "eps \<le> 1 / 100000"
    and "0 < lo" and "lo \<le> r" and "r \<le> hi"
  shows "val_in val a (lo * 0.99999) (hi * 1.00001)"
proof -
  from assms(1) obtain x where x: "val a = Some x" "\<bar>x - r\<bar> \<le> eps * \<bar>r\<bar>"
    by (auto simp: rep_def split: option.splits)
  have r: "0 < r" using assms(4,5) by simp
  have e: "eps * r \<le> (1 / 100000) * r"
    using assms(3) r by (intro mult_right_mono) simp_all
  have "\<bar>r\<bar> = r" using r by simp
  then have "\<bar>x - r\<bar> \<le> eps * r" using x(2) by simp
  then have "\<bar>x - r\<bar> \<le> r / 100000"
    using e by linarith
  then have xr: "r - r / 100000 \<le> x" "x \<le> r + r / 100000"
    by linarith+
  have "lo * 0.99999 \<le> r * 0.99999" "r * 1.00001 \<le> hi * 1.00001"
    using assms(5,6) by simp_all
  moreover have "r * 0.99999 = r - r / 100000" "r * 1.00001 = r + r / 100000"
    by simp_all
  ultimately have "lo * 0.99999 \<le> x" "x \<le> hi * 1.00001"
    using xr by linarith+
  then show ?thesis by (simp add: val_in_def x(1))
qed

lemma val_in_weaken:
  "val_in val a lo hi \<Longrightarrow> lo' \<le> lo \<Longrightarrow> hi \<le> hi' \<Longrightarrow> val_in val a lo' hi'"
  by (auto simp: val_in_def split: option.splits)

lemma val_in_lit:
  assumes "fpu_accurate fp val eps" "0 \<le> eps" "eps \<le> 1 / 100000" "1 / 1000 \<le> q" "q \<le> 1000"
  shows "val_in val (f_lit fp q) (q * 0.99999) (q * 1.00001)"
proof -
  have "rep val eps (f_lit fp q) q"
    using assms(1) in_range_moderate [OF assms(4,5)] by (simp add: fpu_accurate_def)
  then show ?thesis
    using assms(2-4) by (intro rep_within [where r = q and eps = eps]) simp_all
qed

lemma val_in_of_int:
  assumes "fpu_accurate fp val eps" "0 \<le> eps" "eps \<le> 1 / 100000" "1 \<le> n" "n \<le> 1000"
  shows "val_in val (f_of_int fp n) (of_int n * 0.99999) (of_int n * 1.00001)"
proof -
  have "in_range (of_int n)" using assms(4,5) by (intro in_range_moderate) simp_all
  then have "rep val eps (f_of_int fp n) (of_int n)"
    using assms(1) by (simp add: fpu_accurate_def)
  then show ?thesis
    using assms(2-4) by (intro rep_within [where r = "of_int n" and eps = eps]) simp_all
qed

lemma val_in_mul:
  assumes acc: "fpu_accurate fp val eps" "0 \<le> eps" "eps \<le> 1 / 100000"
    and a: "val_in val a la ha" and b: "val_in val b lb hb"
    and pos: "0 < la" "0 < lb" and rng: "1 / 1000 \<le> la * lb" "ha * hb \<le> 1000"
  shows "val_in val (f_mul fp a b) (la * lb * 0.99999) (ha * hb * 1.00001)"
proof -
  from a obtain x where x: "val a = Some x" "la \<le> x" "x \<le> ha"
    by (auto simp: val_in_def split: option.splits)
  from b obtain y where y: "val b = Some y" "lb \<le> y" "y \<le> hb"
    by (auto simp: val_in_def split: option.splits)
  have lo: "la * lb \<le> x * y" using x y pos by (intro mult_mono) simp_all
  have hi: "x * y \<le> ha * hb" using x y pos by (intro mult_mono) simp_all
  have "in_range (x * y)" using lo hi rng by (intro in_range_moderate) simp_all
  then have "rep val eps (f_mul fp a b) (x * y)"
    using acc(1) x(1) y(1) by (simp add: fpu_accurate_def)
  then show ?thesis
    using acc(2,3) lo hi pos by (intro rep_within [where r = "x * y" and eps = eps]) simp_all
qed

lemma val_in_add:
  assumes acc: "fpu_accurate fp val eps" "0 \<le> eps" "eps \<le> 1 / 100000"
    and a: "val_in val a la ha" and b: "val_in val b lb hb"
    and rng: "1 / 1000 \<le> la + lb" "ha + hb \<le> 1000"
  shows "val_in val (f_add fp a b) ((la + lb) * 0.99999) ((ha + hb) * 1.00001)"
proof -
  from a obtain x where x: "val a = Some x" "la \<le> x" "x \<le> ha"
    by (auto simp: val_in_def split: option.splits)
  from b obtain y where y: "val b = Some y" "lb \<le> y" "y \<le> hb"
    by (auto simp: val_in_def split: option.splits)
  have "in_range (x + y)" using x y rng by (intro in_range_moderate) simp_all
  then have "rep val eps (f_add fp a b) (x + y)"
    using acc(1) x(1) y(1) by (simp add: fpu_accurate_def)
  then show ?thesis
    using acc(2,3) x y rng by (intro rep_within [where r = "x + y" and eps = eps]) simp_all
qed

lemma val_in_sub:
  assumes acc: "fpu_accurate fp val eps" "0 \<le> eps" "eps \<le> 1 / 100000"
    and a: "val_in val a la ha" and b: "val_in val b lb hb"
    and rng: "1 / 1000 \<le> la - hb" "ha - lb \<le> 1000"
  shows "val_in val (f_sub fp a b) ((la - hb) * 0.99999) ((ha - lb) * 1.00001)"
proof -
  from a obtain x where x: "val a = Some x" "la \<le> x" "x \<le> ha"
    by (auto simp: val_in_def split: option.splits)
  from b obtain y where y: "val b = Some y" "lb \<le> y" "y \<le> hb"
    by (auto simp: val_in_def split: option.splits)
  have "in_range (x - y)" using x y rng by (intro in_range_moderate) simp_all
  then have "rep val eps (f_sub fp a b) (x - y)"
    using acc(1) x(1) y(1) by (simp add: fpu_accurate_def)
  then show ?thesis
    using acc(2,3) x y rng by (intro rep_within [where r = "x - y" and eps = eps]) simp_all
qed

lemma val_in_div:
  assumes acc: "fpu_accurate fp val eps" "0 \<le> eps" "eps \<le> 1 / 100000"
    and a: "val_in val a la ha" and b: "val_in val b lb hb"
    and pos: "0 < la" "0 < lb" and rng: "1 / 1000 \<le> la / hb" "ha / lb \<le> 1000"
  shows "val_in val (f_div fp a b) (la / hb * 0.99999) (ha / lb * 1.00001)"
proof -
  from a obtain x where x: "val a = Some x" "la \<le> x" "x \<le> ha"
    by (auto simp: val_in_def split: option.splits)
  from b obtain y where y: "val b = Some y" "lb \<le> y" "y \<le> hb"
    by (auto simp: val_in_def split: option.splits)
  have y0: "0 < y" "0 < hb" using y pos by simp_all
  have lo: "la / hb \<le> x / y" using x y pos y0 by (intro frac_le) simp_all
  have hi: "x / y \<le> ha / lb" using x y pos y0 by (intro frac_le) simp_all
  have lpos: "0 < la / hb" using pos y0 by simp
  have "1 / 1000 \<le> x / y" using rng(1) lo by (rule order_trans)
  moreover have "x / y \<le> 1000" using hi rng(2) by (rule order_trans)
  ultimately have "in_range (x / y)" by (rule in_range_moderate)
  then have "rep val eps (f_div fp a b) (x / y)"
    using acc(1) x(1) y(1) y0 by (simp add: fpu_accurate_def)
  then show ?thesis
    using acc(2,3) lo hi lpos by (intro rep_within [where r = "x / y" and eps = eps]) simp_all
qed

lemma val_in_logf:
  assumes acc: "fpu_accurate fp val eps" "0 \<le> eps" "eps \<le> 1 / 100000"
    and a: "val_in val a la ha" and pos: "1 < la" and rng: "1 / 1000 \<le> ln la" "ln ha \<le> 1000"
  shows "val_in val (f_logf fp a) (ln la * 0.99999) (ln ha * 1.00001)"
proof -
  from a obtain x where x: "val a = Some x" "la \<le> x" "x \<le> ha"
    by (auto simp: val_in_def split: option.splits)
  have x0: "0 < x" "0 < la" using x pos by simp_all
  have lo: "ln la \<le> ln x" using x x0 by simp
  have hi: "ln x \<le> ln ha" using x x0 by simp
  have lpos: "0 < ln la" using pos by simp
  have "in_range (ln x)" using lo hi rng by (intro in_range_moderate) simp_all
  then have "rep val eps (f_logf fp a) (ln x)"
    using acc(1) x(1) x0 by (simp add: fpu_accurate_def)
  then show ?thesis
    using acc(2,3) lo hi lpos by (intro rep_within [where r = "ln x" and eps = eps]) simp_all
qed


lemma ln_lower_bound:
  fixes x :: real
  assumes "0 < x"
  shows "1 - 1 / x \<le> ln x"
proof -
  have "ln (1 / x) \<le> 1 / x - 1" using assms by (intro ln_le_minus_one) simp
  moreover have "ln (1 / x) = - ln x" using assms by (simp add: ln_div)
  ultimately show ?thesis by simp
qed

lemma ln_ratio_lower:
  fixes x y :: real and a b c d p q :: nat
  assumes pos: "0 < b" "0 < d" "0 < q" "0 < x" "1 < y"
    and ax: "real a \<le> x * real b" and yc: "y * real d \<le> real c"
    and pw: "c ^ p * b ^ q \<le> a ^ q * d ^ p"
  shows "real p / real q \<le> ln x / ln y"
proof -
  have k: "0 < real d ^ p * real b ^ q" using pos by simp
  have "y ^ p * (real d ^ p * real b ^ q) = (y * real d) ^ p * real b ^ q"
    by (simp add: power_mult_distrib)
  also have "\<dots> \<le> real c ^ p * real b ^ q"
    using yc pos by (intro mult_right_mono power_mono) simp_all
  also have "\<dots> = real (c ^ p * b ^ q)" by simp
  also have "\<dots> \<le> real (a ^ q * d ^ p)" using pw by (simp only: of_nat_le_iff)
  also have "\<dots> = real a ^ q * real d ^ p" by simp
  also have "\<dots> \<le> (x * real b) ^ q * real d ^ p"
    using ax by (intro mult_right_mono power_mono) simp_all
  also have "\<dots> = x ^ q * (real d ^ p * real b ^ q)"
    by (simp add: power_mult_distrib)
  finally have "y ^ p \<le> x ^ q"
    using k by (rule mult_right_le_imp_le)
  then have "ln (y ^ p) \<le> ln (x ^ q)"
    using pos by (subst ln_le_cancel_iff) simp_all
  then have "real p * ln y \<le> real q * ln x"
    using pos by (simp add: ln_realpow)
  moreover have "0 < ln y" using pos by simp
  ultimately show ?thesis using pos by (simp add: field_simps)
qed

lemma ln_ratio_upper:
  fixes x y :: real and a b c d p q :: nat
  assumes pos: "0 < b" "0 < d" "0 < q" "0 < x" "1 < y"
    and ax: "x * real b \<le> real a" and yc: "real c \<le> y * real d"
    and pw: "a ^ q * d ^ p \<le> c ^ p * b ^ q"
  shows "ln x / ln y \<le> real p / real q"
proof -
  have k: "0 < real d ^ p * real b ^ q" using pos by simp
  have "x ^ q * (real d ^ p * real b ^ q) = (x * real b) ^ q * real d ^ p"
    by (simp add: power_mult_distrib)
  also have "\<dots> \<le> real a ^ q * real d ^ p"
    using ax pos by (intro mult_right_mono power_mono) simp_all
  also have "\<dots> = real (a ^ q * d ^ p)" by simp
  also have "\<dots> \<le> real (c ^ p * b ^ q)" using pw by (simp only: of_nat_le_iff)
  also have "\<dots> = real c ^ p * real b ^ q" by simp
  also have "\<dots> \<le> (y * real d) ^ p * real b ^ q"
    using yc by (intro mult_right_mono power_mono) simp_all
  also have "\<dots> = y ^ p * (real d ^ p * real b ^ q)"
    by (simp add: power_mult_distrib)
  finally have "x ^ q \<le> y ^ p"
    using k by (rule mult_right_le_imp_le)
  then have "ln (x ^ q) \<le> ln (y ^ p)"
    using pos by (subst ln_le_cancel_iff) simp_all
  then have "real q * ln x \<le> real p * ln y"
    using pos by (simp add: ln_realpow)
  moreover have "0 < ln y" using pos by simp
  ultimately show ?thesis using pos by (simp add: field_simps)
qed

lemma ln_ratio_gray_lower: "31 / 53 \<le> ln (3 / 2 :: real) / ln (20001 / 10000)"
  using ln_ratio_lower [where x = "3 / 2" and y = "20001 / 10000" and a = 3 and b = 2
      and c = 20001 and d = 10000 and p = 31 and q = 53]
  by simp

lemma ln_ratio_gray_upper: "ln (15023 / 10000 :: real) / ln (19999 / 10000) \<le> 37 / 63"
  using ln_ratio_upper [where x = "15023 / 10000" and y = "19999 / 10000" and a = 15023 and b = 10000
      and c = 19999 and d = 10000 and p = 37 and q = 63]
  by simp


lemma val_in_div_ratio:
  assumes acc: "fpu_accurate fp val eps" "0 \<le> eps" "eps \<le> 1 / 100000"
    and a: "val_in val a (la * (99999 / 100000)) (ha * (100001 / 100000))"
    and b: "val_in val b (lb * (99999 / 100000)) (hb * (100001 / 100000))"
    and pos: "0 < la" "0 < lb" "0 < hb"
    and r: "rl \<le> la / hb" "ha / lb \<le> rh" "1 / 100 \<le> rl" "0 \<le> rh" "rh \<le> 100"
  shows "val_in val (f_div fp a b) (rl * (9999 / 10000)) (rh * (10001 / 10000))"
proof -
  define u where "u = la / hb"
  define v where "v = ha / lb"
  have e1: "la * (99999 / 100000) / (hb * (100001 / 100000)) = u * (99999 / 100001)"
    by (simp add: u_def)
  have e2: "ha * (100001 / 100000) / (lb * (99999 / 100000)) = v * (100001 / 99999)"
    by (simp add: v_def)
  have ru: "rl \<le> u" "v \<le> rh" using r(1,2) by (simp_all add: u_def v_def)
  show ?thesis
  proof (rule val_in_weaken [OF val_in_div [OF acc a b]])
    show "0 < la * (99999 / 100000)" "0 < lb * (99999 / 100000)" using pos by simp_all
    show "1 / 1000 \<le> la * (99999 / 100000) / (hb * (100001 / 100000))"
      unfolding e1 using ru(1) r(3) by simp
    show "ha * (100001 / 100000) / (lb * (99999 / 100000)) \<le> 1000"
      unfolding e2 using ru(2) r(5) by simp
    show "rl * (9999 / 10000) \<le> la * (99999 / 100000) / (hb * (100001 / 100000)) * 0.99999"
      unfolding e1 using ru(1) r(3) by simp
    show "ha * (100001 / 100000) / (lb * (99999 / 100000)) * 1.00001 \<le> rh * (10001 / 10000)"
      unfolding e2 using ru(2) r(4) by simp
  qed
qed


lemma ln_gray_bounds:
  "1 / 3 \<le> ln (3 / 2 :: real)" "ln (15023 / 10000 :: real) \<le> 1"
  "1 / 3 \<le> ln (19999 / 10000 :: real)" "ln (20001 / 10000 :: real) \<le> 2"
  using ln_lower_bound [of "3 / 2"] ln_le_minus_one [of "15023 / 10000 :: real"]
    ln_lower_bound [of "19999 / 10000"] ln_le_minus_one [of "20001 / 10000 :: real"]
  by simp_all

lemma val_in_to_int:
  assumes "fpu_accurate fp val eps" and "val_in val a (of_int n) hi" and "0 \<le> n" and "hi < of_int n + 1"
    and "n < 2 ^ 30"
  shows "f_to_int fp a = n"
proof -
  from assms(2) obtain x where x: "val a = Some x" "of_int n \<le> x" "x \<le> hi"
    by (auto simp: val_in_def split: option.splits)
  have x0: "0 \<le> x" using x(2) assms(3) by simp
  have "real_of_int n < 2 ^ 30" using assms(5) by (metis of_int_less_iff of_int_numeral of_int_power)
  then have "\<bar>x\<bar> < 2 ^ 31" using x0 x(3) assms(4) by simp
  then have "f_to_int fp a = \<lfloor>x\<rfloor>"
    using assms(1) x(1) x0 by (simp add: fpu_accurate_def)
  moreover have "\<lfloor>x\<rfloor> = n" using x(2,3) assms(4) by (intro floor_unique) simp_all
  ultimately show ?thesis by simp
qed

lemma whiten_channel_accurate_128:
  assumes acc: "fpu_accurate fp val eps" "0 \<le> eps" "eps \<le> 1 / 100000"
  shows "whiten_channel fp (f_lit fp 2) (f_logf fp (f_lit fp 2)) 128 = 149"
proof -
  define ci where "ci = f_of_int fp 128"
  define k where "k = f_lit fp 0.003921568627451"
  define w where "w = f_lit fp 2"
  define one where "one = f_lit fp 1"
  define t1 where "t1 = f_mul fp ci k"
  define t2 where "t2 = f_sub fp w one"
  define t3 where "t3 = f_mul fp t1 t2"
  define t4 where "t4 = f_add fp t3 one"
  define t5 where "t5 = f_logf fp t4"
  define a where "a = f_logf fp w"
  define t6 where "t6 = f_div fp t5 a"
  define r where "r = f_mul fp (f_lit fp 255) t6"
  have ci: "val_in val ci (12799 / 100) (12801 / 100)"
    unfolding ci_def by (rule val_in_weaken [OF val_in_of_int [OF acc]]) simp_all
  have k: "val_in val k (39215 / 10000000) (39217 / 10000000)"
    unfolding k_def by (rule val_in_weaken [OF val_in_lit [OF acc]]) simp_all
  have w2: "val_in val w (199998 / 100000) (200002 / 100000)"
    unfolding w_def by (rule val_in_weaken [OF val_in_lit [OF acc]]) simp_all
  have w: "val_in val w (19999 / 10000) (20001 / 10000)"
    by (rule val_in_weaken [OF w2]) simp_all
  have one: "val_in val one (99999 / 100000) (100001 / 100000)"
    unfolding one_def by (rule val_in_weaken [OF val_in_lit [OF acc]]) simp_all
  have l255: "val_in val (f_lit fp 255) (2549 / 10) (2551 / 10)"
    by (rule val_in_weaken [OF val_in_lit [OF acc]]) simp_all
  have t1: "val_in val t1 (5019 / 10000) (5021 / 10000)"
    unfolding t1_def by (rule val_in_weaken [OF val_in_mul [OF acc ci k]]) simp_all
  have t2: "val_in val t2 (9999 / 10000) (10001 / 10000)"
    unfolding t2_def by (rule val_in_weaken [OF val_in_sub [OF acc w2 one]]) simp_all
  have t3: "val_in val t3 (5018 / 10000) (5022 / 10000)"
    unfolding t3_def by (rule val_in_weaken [OF val_in_mul [OF acc t1 t2]]) simp_all
  have t4: "val_in val t4 (3 / 2) (15023 / 10000)"
    unfolding t4_def by (rule val_in_weaken [OF val_in_add [OF acc t3 one]]) simp_all
  have t5: "val_in val t5 (ln (3 / 2) * (99999 / 100000)) (ln (15023 / 10000) * (100001 / 100000))"
    unfolding t5_def using ln_gray_bounds(1,2)
    by (intro val_in_weaken [OF val_in_logf [OF acc t4]]) simp_all
  have a: "val_in val a (ln (19999 / 10000) * (99999 / 100000)) (ln (20001 / 10000) * (100001 / 100000))"
    unfolding a_def using ln_gray_bounds(3,4)
    by (intro val_in_weaken [OF val_in_logf [OF acc w]]) simp_all
  have p: "0 < ln (3 / 2 :: real)" "0 < ln (19999 / 10000 :: real)" "0 < ln (20001 / 10000 :: real)"
    by simp_all
  have t6: "val_in val t6 (31 / 53 * (9999 / 10000)) (37 / 63 * (10001 / 10000))"
    unfolding t6_def
    by (rule val_in_div_ratio [OF acc t5 a p ln_ratio_gray_lower ln_ratio_gray_upper]) simp_all
  have r: "val_in val r (of_int 149) (1499 / 10)"
    unfolding r_def by (rule val_in_weaken [OF val_in_mul [OF acc l255 t6]]) simp_all
  have "f_to_int fp r = 149"
    by (rule val_in_to_int [OF acc(1) r]) simp_all
  then show ?thesis
    unfolding whiten_channel_def Let_def r_def t6_def t5_def a_def t4_def t3_def t2_def t1_def
      ci_def k_def w_def one_def
    by (simp add: clamp_def)
qed


lemma val_lit_zero:
  assumes "fpu_accurate fp val eps"
  shows "val (f_lit fp 0) = Some 0"
proof -
  have "in_range 0" by (simp add: in_range_def)
  then have "rep val eps (f_lit fp 0) 0" using assms by (simp add: fpu_accurate_def)
  then show ?thesis by (simp add: rep_def split: option.splits)
qed

lemma val_in_le:
  assumes "fpu_accurate fp val eps" and "val_in val a la ha" and "val_in val b lb hb" and "ha \<le> lb"
  shows "f_le fp a b"
proof -
  from assms(2) obtain x where x: "val a = Some x" "la \<le> x" "x \<le> ha"
    by (auto simp: val_in_def split: option.splits)
  from assms(3) obtain y where y: "val b = Some y" "lb \<le> y" "y \<le> hb"
    by (auto simp: val_in_def split: option.splits)
  have "f_le fp a b = (x \<le> y)" using assms(1) x(1) y(1) by (simp add: fpu_accurate_def)
  then show ?thesis using x(3) y(2) assms(4) by simp
qed

lemma whiten_guards_accurate:
  assumes acc: "fpu_accurate fp val eps" "0 \<le> eps" "eps \<le> 1 / 100000"
  shows "whiten_in_range fp (f_lit fp 2)" and "\<not> log_is_zero fp (f_lit fp 2)"
proof -
  have one: "val_in val (f_lit fp 1) (99999 / 100000) (100001 / 100000)"
    by (rule val_in_weaken [OF val_in_lit [OF acc]]) simp_all
  have two: "val_in val (f_lit fp 2) (19999 / 10000) (20001 / 10000)"
    by (rule val_in_weaken [OF val_in_lit [OF acc]]) simp_all
  have five: "val_in val (f_lit fp 5) (49999 / 10000) (50001 / 10000)"
    by (rule val_in_weaken [OF val_in_lit [OF acc]]) simp_all
  have "f_le fp (f_lit fp 1) (f_lit fp 2)" by (rule val_in_le [OF acc(1) one two]) simp
  moreover have "f_le fp (f_lit fp 2) (f_lit fp 5)" by (rule val_in_le [OF acc(1) two five]) simp
  ultimately show "whiten_in_range fp (f_lit fp 2)" by (simp add: whiten_in_range_def)
  have "val_in val (f_logf fp (f_lit fp 2)) (ln (19999 / 10000) * (99999 / 100000))
          (ln (20001 / 10000) * (100001 / 100000))"
    using ln_gray_bounds(3,4) by (intro val_in_weaken [OF val_in_logf [OF acc two]]) simp_all
  then obtain x where x: "val (f_logf fp (f_lit fp 2)) = Some x"
      "ln (19999 / 10000) * (99999 / 100000) \<le> x"
    by (auto simp: val_in_def split: option.splits)
  have "0 < ln (19999 / 10000 :: real) * (99999 / 100000)" by simp
  then have "x \<noteq> 0" using x(2) by linarith
  moreover have "f_eq fp (f_logf fp (f_lit fp 2)) (f_lit fp 0) = (x = 0)"
    using acc(1) x(1) val_lit_zero [OF acc(1)] by (simp add: fpu_accurate_def)
  ultimately show "\<not> log_is_zero fp (f_lit fp 2)" by (simp add: log_is_zero_def)
qed

lemma whiten_pixel_accurate_gray:
  assumes acc: "fpu_accurate fp val eps" "0 \<le> eps" "eps \<le> 1 / 100000"
    and cv: "convertIntToArgb cv 0xFF808080 = \<lparr> alpha = 0xFF, red = 0x80, green = 0x80, blue = 0x80 \<rparr>"
  shows "whiten_pixel fp cv (f_lit fp 2) 0xFF808080
         = convertArgbToInt cv \<lparr> alpha = 0xFF, red = 149, green = 149, blue = 149 \<rparr>"
  by (simp add: whiten_pixel_def cv whiten_channel_accurate_128 [OF acc])

lemma gray64_on_facts:
  "mInitialized (gray64_on fp cv)" "buffers_ok (gray64_on fp cv)"
  "mImageData_rgb (gray64_on fp cv) = Some (replicate 4096 0xFF808080)"
  using init_success [OF isSizeSafe_64, of all_ok "replicate (nat (64 * 64)) 0xFF808080" cv "MagicBeautify_ctor fp"]
  by (simp_all add: gray64_on_def uniform_bitmap_def all_ok_def)

lemma exact_fpu_accurate: "fpu_accurate exact_fpu Some 0"
  by (simp add: fpu_accurate_def rep_def exact_fpu_def)

text \<open>
  C6 as the code has it. The 64 by 64 image of opaque mid-gray \<^verbatim>\<open>0xFF808080\<close> is
  initialized and whitened at level 2.0, in any float arithmetic whose operations are
  within the relative error \<open>10\<^sup>-\<^sup>5\<close> of the exact results, with any helpers that unpack
  \<^verbatim>\<open>0xFF808080\<close> to alpha \<open>0xFF\<close> and three channels 128. The call succeeds and every
  output pixel is the packing of alpha \<open>0xFF\<close> and R, G, B all equal to 149: the cast
  \<^verbatim>\<open>(int)\<close> truncates \<open>255 * ln (1 + 128 * 0.003921568627451) / ln 2 = 149.64...\<close>, and
  the accumulated rounding error stays far below the distance to 149 and to 150.
\<close>

theorem C6_whiten_gray_accurate_floats:
  assumes "fpu_accurate fp val eps" and "0 \<le> eps" and "eps \<le> 1 / 100000"
    and "convertIntToArgb cv 0xFF808080 = \<lparr> alpha = 0xFF, red = 0x80, green = 0x80, blue = 0x80 \<rparr>"
  shows "fst (startWhiteSkin fp cv (f_lit fp 2) (gray64_on fp cv)) = BEAUTY_SUCCESS \<and>
         storedBitmapPixels (snd (startWhiteSkin fp cv (f_lit fp 2) (gray64_on fp cv)))
         = Some (replicate 4096 (convertArgbToInt cv \<lparr> alpha = 0xFF, red = 149, green = 149, blue = 149 \<rparr>))"
proof -
  note g = whiten_guards_accurate [OF assms(1-3)]
  note f = gray64_on_facts [of fp cv]
  show ?thesis
    using p_startBeauty_run(1) [OF f(1), of fp cv "mSmoothLevel (gray64_on fp cv)" "f_lit fp 2"]
      p_startBeauty_out_whitened [OF f(1,2) g, of cv "mSmoothLevel (gray64_on fp cv)"]
    by (simp add: startWhiteSkin_def gray64_on_facts(3) whiten_pixel_accurate_gray [OF assms])
qed

text \<open>
  The theorem at the exact arithmetic and the spec's helpers, where the packed word is
  \<^verbatim>\<open>0xFF959595\<close>.
\<close>

theorem C6_whiten_gray_witness:
  "fpu_accurate exact_fpu Some 0 \<and>
   convertIntToArgb spec_lib 0xFF808080 = \<lparr> alpha = 0xFF, red = 0x80, green = 0x80, blue = 0x80 \<rparr> \<and>
   fst (startWhiteSkin exact_fpu spec_lib (f_lit exact_fpu 2) (gray64_on exact_fpu spec_lib)) = BEAUTY_SUCCESS \<and>
   storedBitmapPixels (snd (startWhiteSkin exact_fpu spec_lib (f_lit exact_fpu 2) (gray64_on exact_fpu spec_lib)))
   = Some (replicate 4096 (convertArgbToInt spec_lib \<lparr> alpha = 0xFF, red = 149, green = 149, blue = 149 \<rparr>)) \<and>
   convertArgbToInt spec_lib \<lparr> alpha = 0xFF, red = 149, green = 149, blue = 149 \<rparr> = 0xFF959595"
proof -
  have c: "convertIntToArgb spec_lib 0xFF808080 = \<lparr> alpha = 0xFF, red = 0x80, green = 0x80, blue = 0x80 \<rparr>"
    by (simp add: spec_convertIntToArgb_def)
  have d: "convertArgbToInt spec_lib \<lparr> alpha = 0xFF, red = 149, green = 149, blue = 149 \<rparr> = 0xFF959595"
    by (simp add: spec_convertArgbToInt_def)
  have z: "(0::real) \<le> 0" "(0::real) \<le> 1 / 100000" by simp_all
  show ?thesis
    using C6_whiten_gray_accurate_floats [OF exact_fpu_accurate z c] exact_fpu_accurate c d
    by (intro conjI) (erule conjunct1 conjunct2 | assumption)+
qed

section \<open>The claims on the tables, the frame and the call sequences\<close>

lemma tbl_sum_zero: "tbl_sum g w 0 j = 0" "tbl_sum g w i 0 = 0"
  by (simp_all add: tbl_sum_def col_sum_def)

lemma four_corner_query_rect:
  fixes g :: "nat \<Rightarrow> u64"
  assumes cells: "\<And>i j. i < h \<Longrightarrow> j < w \<Longrightarrow> T ! (i * w + j) = prefix_sum g w i j"
    and i: "0 \<le> i0" "i0 \<le> i1" "i1 < int h" and j: "0 \<le> j0" "j0 \<le> j1" "j1 < int w"
  shows "four_corner_query T (int w) i0 j0 i1 j1 = rect_sum g w (nat i0) (nat j0) (nat i1) (nat j1)"
proof -
  have idx: "nat (a * int w + b) = nat a * w + nat b" if "0 \<le> a" "0 \<le> b" for a b
    using that by (simp add: nat_add_distrib nat_mult_distrib)
  have cell: "table_cell T (int w) a b = tbl_sum g w (nat (a + 1)) (nat (b + 1))"
    if "- 1 \<le> a" "a < int h" "- 1 \<le> b" "b < int w" for a b
  proof (cases "a < 0 \<or> b < 0")
    case True
    then have "nat (a + 1) = 0 \<or> nat (b + 1) = 0" using that by auto
    then have "tbl_sum g w (nat (a + 1)) (nat (b + 1)) = 0"
      by (auto simp: tbl_sum_zero)
    then show ?thesis using True by (simp add: table_cell_def)
  next
    case False
    then have ab: "0 \<le> a" "0 \<le> b" by simp_all
    have s: "nat (a + 1) = Suc (nat a)" "nat (b + 1) = Suc (nat b)" using ab by simp_all
    have "T ! (nat a * w + nat b) = prefix_sum g w (nat a) (nat b)"
      using that ab by (intro cells) simp_all
    then show ?thesis
      using False by (simp add: table_cell_def idx [OF ab] s prefix_sum_tbl)
  qed
  have s: "nat (i0 - 1 + 1) = nat i0" "nat (j0 - 1 + 1) = nat j0"
    "nat (i1 + 1) = Suc (nat i1)" "nat (j1 + 1) = Suc (nat j1)"
    using i j by simp_all
  have "four_corner_query T (int w) i0 j0 i1 j1
        = tbl_sum g w (Suc (nat i1)) (Suc (nat j1)) + tbl_sum g w (nat i0) (nat j0)
          - tbl_sum g w (Suc (nat i1)) (nat j0) - tbl_sum g w (nat i0) (Suc (nat j1))"
    unfolding four_corner_query_def
    using i j cell [of i1 j1] cell [of "i0 - 1" "j0 - 1"] cell [of i1 "j0 - 1"] cell [of "i0 - 1" j1]
    by (simp add: s)
  also have "\<dots> = rect_sum g w (nat i0) (nat j0) (nat i1) (nat j1)"
    using i j by (intro rect_sum_tbl [symmetric]) simp_all
  finally show ?thesis .
qed

lemma four_corner_query_code:
  assumes "1 \<le> i0" and "1 \<le> j0" and "i0 \<le> i1" and "j0 \<le> j1"
  shows "sat_query T w i0 j0 i1 j1 = four_corner_query T w i0 j0 i1 j1"
  using assms by (simp add: sat_query_def four_corner_query_def table_cell_def Let_def)

text \<open>
  C3. After a successful \<^verbatim>\<open>initMagicBeautify\<close>, cell \<open>(i, j)\<close> of each table is the
  inclusive prefix sum of Y (of Y squared) over rows \<open>0..i\<close> and columns \<open>0..j\<close>: the
  tables have no padding row or column. For every rectangle with \<open>0 \<le> i0 \<le> i1 < h\<close>
  and \<open>0 \<le> j0 \<le> j1 < w\<close>, the four-corner query over a table is the double-loop sum
  over the rectangle, in \<^verbatim>\<open>uint64_t\<close> and, since nothing wraps around, as a number. The
  queries that \<^verbatim>\<open>_startSkinSmooth\<close> issues have \<open>1 \<le> iMin\<close> and \<open>1 \<le> jMin\<close>; there the
  expression it evaluates is the four-corner query.
\<close>

theorem C3_tables_are_prefix_sums:
  fixes cv :: bitmap_lib and e :: "'f MagicBeautify" and i j :: nat and i0 j0 i1 j1 :: int
  assumes "isSizeSafe w h"
    and "alloc 0" "alloc 1" "alloc 2" "alloc 3" "alloc 4" "alloc 5" "alloc 6"
    and "length px = nat (w * h)"
    and "i < nat h" and "j < nat w"
    and "0 \<le> i0" "i0 \<le> i1" "i1 < h" and "0 \<le> j0" "j0 \<le> j1" "j1 < w"
  defines "e' \<equiv> snd (initMagicBeautify cv alloc
              (Some \<lparr> bitmapInfo_width = w, bitmapInfo_height = h, jni_storedBitmapPixels = Some px \<rparr>) e)"
  shows "the (mIntegralMatrix e') ! (i * nat w + j)
           = prefix_sum (y_u64 (the (mImageData_yuv e'))) (nat w) i j \<and>
         the (mIntegralMatrixSqr e') ! (i * nat w + j)
           = prefix_sum (y2_u64 (the (mImageData_yuv e'))) (nat w) i j \<and>
         four_corner_query (the (mIntegralMatrix e')) w i0 j0 i1 j1
           = rect_sum (y_u64 (the (mImageData_yuv e'))) (nat w) (nat i0) (nat j0) (nat i1) (nat j1) \<and>
         four_corner_query (the (mIntegralMatrixSqr e')) w i0 j0 i1 j1
           = rect_sum (y2_u64 (the (mImageData_yuv e'))) (nat w) (nat i0) (nat j0) (nat i1) (nat j1) \<and>
         unat (four_corner_query (the (mIntegralMatrix e')) w i0 j0 i1 j1)
           = rect_sum (\<lambda>off. unat (luma (the (mImageData_yuv e')) off))
               (nat w) (nat i0) (nat j0) (nat i1) (nat j1) \<and>
         unat (four_corner_query (the (mIntegralMatrixSqr e')) w i0 j0 i1 j1)
           = rect_sum (\<lambda>off. unat (luma (the (mImageData_yuv e')) off) * unat (luma (the (mImageData_yuv e')) off))
               (nat w) (nat i0) (nat j0) (nat i1) (nat j1) \<and>
         (1 \<le> i0 \<and> 1 \<le> j0 \<longrightarrow>
            sat_query (the (mIntegralMatrix e')) w i0 j0 i1 j1
              = four_corner_query (the (mIntegralMatrix e')) w i0 j0 i1 j1 \<and>
            sat_query (the (mIntegralMatrixSqr e')) w i0 j0 i1 j1
              = four_corner_query (the (mIntegralMatrixSqr e')) w i0 j0 i1 j1)"
proof -
  note b = isSizeSafe_bounds [OF assms(1)]
  have w: "int (nat w) = w" using b by simp
  note cells = init_tables [OF assms(1-9), where cv = cv and e = e, folded e'_def]
  have q1: "four_corner_query (the (mIntegralMatrix e')) w i0 j0 i1 j1
           = rect_sum (y_u64 (the (mImageData_yuv e'))) (nat w) (nat i0) (nat j0) (nat i1) (nat j1)"
    using four_corner_query_rect [of "nat h" "nat w" "the (mIntegralMatrix e')" "y_u64 (the (mImageData_yuv e'))"
        i0 i1 j0 j1, OF cells(1)] assms(12-17) by (simp add: w)
  have q2: "four_corner_query (the (mIntegralMatrixSqr e')) w i0 j0 i1 j1
           = rect_sum (y2_u64 (the (mImageData_yuv e'))) (nat w) (nat i0) (nat j0) (nat i1) (nat j1)"
    using four_corner_query_rect [of "nat h" "nat w" "the (mIntegralMatrixSqr e')" "y2_u64 (the (mImageData_yuv e'))"
        i0 i1 j0 j1, OF cells(2)] assms(12-17) by (simp add: w)
  have "nat (w * h) \<le> nat 4000000"
    using b by (intro nat_mono) simp
  then have "nat w * nat h \<le> 4000000"
    using b by (simp add: nat_mult_distrib)
  then have lim: "nat i1 < nat h" "nat j1 < nat w" "nat w * nat h \<le> 4000000"
    using assms(12-17) by simp_all
  have c: "1 \<le> i0 \<and> 1 \<le> j0 \<longrightarrow>
            sat_query (the (mIntegralMatrix e')) w i0 j0 i1 j1
              = four_corner_query (the (mIntegralMatrix e')) w i0 j0 i1 j1 \<and>
            sat_query (the (mIntegralMatrixSqr e')) w i0 j0 i1 j1
              = four_corner_query (the (mIntegralMatrixSqr e')) w i0 j0 i1 j1"
    using assms(13,16) by (simp add: four_corner_query_code)
  show ?thesis
    using cells(1) [OF assms(10,11)] cells(2) [OF assms(10,11)] q1 q2 c
      rect_sum_no_wrap [OF lim, of "the (mImageData_yuv e')" "nat i0" "nat j0"]
    by simp
qed

text \<open>
  The theorem on the 32 by 32 mid-gray image: a cell, the rectangle of rows 0..2 and
  columns 0..2, which starts at row 0 and column 0, and the rectangle of rows 1..2
  and columns 1..2, where the code's expression is the query.
\<close>

theorem C3_tables_witness:
  "isSizeSafe 32 32 \<and> length (replicate 1024 (0xFF808080 :: u32)) = nat (32 * 32) \<and>
   the (mIntegralMatrix gray32) ! (2 * nat 32 + 1)
     = prefix_sum (y_u64 (the (mImageData_yuv gray32))) (nat 32) 2 1 \<and>
   four_corner_query (the (mIntegralMatrix gray32)) 32 0 0 2 2
     = rect_sum (y_u64 (the (mImageData_yuv gray32))) (nat 32) (nat 0) (nat 0) (nat 2) (nat 2) \<and>
   unat (four_corner_query (the (mIntegralMatrixSqr gray32)) 32 0 0 2 2)
     = rect_sum (\<lambda>off. unat (luma (the (mImageData_yuv gray32)) off) * unat (luma (the (mImageData_yuv gray32)) off))
         (nat 32) (nat 0) (nat 0) (nat 2) (nat 2) \<and>
   sat_query (the (mIntegralMatrix gray32)) 32 1 1 2 2
     = rect_sum (y_u64 (the (mImageData_yuv gray32))) (nat 32) (nat 1) (nat 1) (nat 2) (nat 2)"
proof -
  have l: "length (replicate 1024 (0xFF808080 :: u32)) = nat (32 * 32)" by simp
  have a: "all_ok 0" "all_ok 1" "all_ok 2" "all_ok 3" "all_ok 4" "all_ok 5" "all_ok 6"
    by (simp_all add: all_ok_def)
  have b: "(2::nat) < nat 32" "(1::nat) < nat 32" "(0::int) \<le> 0" "(0::int) \<le> 2" "(2::int) < 32"
    "(1::int) \<le> 1" "(1::int) \<le> 2"
    by simp_all
  note t = C3_tables_are_prefix_sums [OF isSizeSafe_32 a l b(1,2) b(3,4,5) b(3,4,5), of spec_lib
      "MagicBeautify_ctor exact_fpu", folded gray32_is]
  note u = C3_tables_are_prefix_sums [OF isSizeSafe_32 a l b(1,2) order_trans [OF b(3) zero_le_one] b(7,5)
      order_trans [OF b(3) zero_le_one] b(7,5), of spec_lib "MagicBeautify_ctor exact_fpu", folded gray32_is]
  have "sat_query (the (mIntegralMatrix gray32)) 32 1 1 2 2
        = rect_sum (y_u64 (the (mImageData_yuv gray32))) (nat 32) (nat 1) (nat 1) (nat 2) (nat 2)"
    using u [THEN conjunct2, THEN conjunct2, THEN conjunct1]
      u [THEN conjunct2, THEN conjunct2, THEN conjunct2, THEN conjunct2, THEN conjunct2, THEN conjunct2]
    by simp
  then show ?thesis
    using isSizeSafe_32 l t [THEN conjunct1] t [THEN conjunct2, THEN conjunct2, THEN conjunct1]
      t [THEN conjunct2, THEN conjunct2, THEN conjunct2, THEN conjunct2, THEN conjunct2, THEN conjunct1]
    by simp
qed


lemma run_op_effect_keeps:
  assumes "is_effect x" and "mInitialized e" and "buffers_ok e"
  shows "mInitialized (run_op fp cv x e) \<and> buffers_ok (run_op fp cv x e) \<and>
         mImageData_rgb (run_op fp cv x e) = mImageData_rgb e \<and>
         mSkinMatrix (run_op fp cv x e) = mSkinMatrix e \<and>
         mIntegralMatrix (run_op fp cv x e) = mIntegralMatrix e \<and>
         mIntegralMatrixSqr (run_op fp cv x e) = mIntegralMatrixSqr e \<and>
         mImageWidth (run_op fp cv x e) = mImageWidth e \<and>
         mImageHeight (run_op fp cv x e) = mImageHeight e"
proof (cases x)
  case (Initialize alloc d)
  then show ?thesis using assms(1) by simp
next
  case (ApplyWhiten l)
  show ?thesis
    using p_startBeauty_run(2-8,11) [OF assms(2), of fp cv "mSmoothLevel e" l] assms(3)
    by (simp add: ApplyWhiten startWhiteSkin_def)
next
  case (ApplySmooth s)
  show ?thesis
    using p_startBeauty_run(2-8,11) [OF assms(2), of fp cv s "mWhitenLevel e"] assms(3)
    by (simp add: ApplySmooth startSkinSmooth_def)
qed

lemma run_ops_effect_keeps:
  assumes "list_all is_effect ops" and "mInitialized e" and "buffers_ok e"
  shows "mInitialized (run_ops fp cv ops e) \<and> buffers_ok (run_ops fp cv ops e) \<and>
         mImageData_rgb (run_ops fp cv ops e) = mImageData_rgb e \<and>
         mSkinMatrix (run_ops fp cv ops e) = mSkinMatrix e \<and>
         mIntegralMatrix (run_ops fp cv ops e) = mIntegralMatrix e \<and>
         mIntegralMatrixSqr (run_ops fp cv ops e) = mIntegralMatrixSqr e \<and>
         mImageWidth (run_ops fp cv ops e) = mImageWidth e \<and>
         mImageHeight (run_ops fp cv ops e) = mImageHeight e"
  using assms unfolding run_ops_def
proof (induction ops arbitrary: e)
  case Nil
  then show ?case by simp
next
  case (Cons x ops)
  from Cons.prems have x: "is_effect x" and ops: "list_all is_effect ops" by simp_all
  note k = run_op_effect_keeps [OF x Cons.prems(2,3), of fp cv]
  from k have i: "mInitialized (run_op fp cv x e)" and b: "buffers_ok (run_op fp cv x e)"
    by simp_all
  show ?case
    using Cons.IH [OF ops i b] k by simp
qed

lemma p_startSkinSmooth_yuv:
  assumes "buffers_ok e"
  shows "mImageData_yuv (p_startSkinSmooth fp cv s e)
   = Some (smooth_loops fp (the (mIntegralMatrix e)) (the (mIntegralMatrixSqr e)) (the (mSkinMatrix e))
             (mImageWidth e) (mImageHeight e) (smooth_radius fp (mImageWidth e) (mImageHeight e)) s
             (RGBToYCbCr cv (the (mImageData_rgb e)) (nat (mImageWidth e * mImageHeight e))))"
proof -
  from assms obtain rgb yuv skin I Q out where b:
    "mImageData_rgb e = Some rgb" "mImageData_yuv e = Some yuv" "mSkinMatrix e = Some skin"
    "mIntegralMatrix e = Some I" "mIntegralMatrixSqr e = Some Q" "storedBitmapPixels e = Some out"
    by (rule buffers_okD)
  show ?thesis
    using b by (simp add: p_startSkinSmooth_def Let_def)
qed

lemma startSkinSmooth_yuv:
  assumes "mInitialized e" and "smooth_in_range fp s"
  shows "mImageData_yuv (snd (startSkinSmooth fp cv s e)) = mImageData_yuv (p_startSkinSmooth fp cv s e)"
  using assms
  by (simp add: startSkinSmooth_def p_startBeauty_def Let_def smooth_in_range_def
        p_startWhiteSkin_fields p_startSkinSmooth_def split: option.splits)

text \<open>
  C9. A successful \<^verbatim>\<open>initMagicBeautify\<close> computes the RGB copy (the descriptor's
  pixels), the skin mask (the skin test of each pixel of the copy) and the two
  summed-area tables (the prefix sums of Y and of Y squared of the conversion of the
  copy). After any sequence \<open>ops\<close> of whitening and smoothing calls, at any levels,
  the four buffers are the ones initialize computed. A smoothing pass run after that
  sequence leaves the YCbCr buffer that the pixel loop gives on the conversion of the
  RGB copy, with the tables and the mask of initialize: the same buffer as a pass run
  right after initialize, whatever was whitened in between; and the sums that its
  pixel loop reads from the tables, for a rectangle it may ask for, are the sums of Y
  and of Y squared of that conversion over the rectangle. The first eight equations
  are the frame for a single call on any state \<open>e\<close>.
\<close>

theorem C9_init_data_immutable:
  fixes cv :: bitmap_lib and fp :: "'f fpu" and e e0 :: "'f MagicBeautify"
    and ops :: "'f engine_op list" and i j :: nat and iMin jMin iMax jMax :: int
  assumes "isSizeSafe w h"
    and "alloc 0" "alloc 1" "alloc 2" "alloc 3" "alloc 4" "alloc 5" "alloc 6"
    and "length px = nat (w * h)"
    and "list_all is_effect ops"
    and "i < nat h" and "j < nat w"
  defines "r \<equiv> initMagicBeautify cv alloc
              (Some \<lparr> bitmapInfo_width = w, bitmapInfo_height = h, jni_storedBitmapPixels = Some px \<rparr>) e0"
  defines "e2 \<equiv> run_ops fp cv ops (snd r)"
  defines "Y \<equiv> RGBToYCbCr cv px (nat (w * h))"
  shows "mImageData_rgb (snd (startWhiteSkin fp cv l e)) = mImageData_rgb e \<and>
   mSkinMatrix (snd (startWhiteSkin fp cv l e)) = mSkinMatrix e \<and>
   mIntegralMatrix (snd (startWhiteSkin fp cv l e)) = mIntegralMatrix e \<and>
   mIntegralMatrixSqr (snd (startWhiteSkin fp cv l e)) = mIntegralMatrixSqr e \<and>
   mImageData_rgb (snd (startSkinSmooth fp cv s e)) = mImageData_rgb e \<and>
   mSkinMatrix (snd (startSkinSmooth fp cv s e)) = mSkinMatrix e \<and>
   mIntegralMatrix (snd (startSkinSmooth fp cv s e)) = mIntegralMatrix e \<and>
   mIntegralMatrixSqr (snd (startSkinSmooth fp cv s e)) = mIntegralMatrixSqr e \<and>
   fst r = Returned BEAUTY_SUCCESS \<and>
   mImageData_rgb (snd r) = Some px \<and>
   mSkinMatrix (snd r) = Some (map (skin_byte cv) px) \<and>
   the (mIntegralMatrix (snd r)) ! (i * nat w + j) = prefix_sum (y_u64 Y) (nat w) i j \<and>
   the (mIntegralMatrixSqr (snd r)) ! (i * nat w + j) = prefix_sum (y2_u64 Y) (nat w) i j \<and>
   mImageData_rgb e2 = Some px \<and>
   mSkinMatrix e2 = Some (map (skin_byte cv) px) \<and>
   mIntegralMatrix e2 = mIntegralMatrix (snd r) \<and>
   mIntegralMatrixSqr e2 = mIntegralMatrixSqr (snd r) \<and>
   the (mIntegralMatrix e2) ! (i * nat w + j) = prefix_sum (y_u64 Y) (nat w) i j \<and>
   the (mIntegralMatrixSqr e2) ! (i * nat w + j) = prefix_sum (y2_u64 Y) (nat w) i j \<and>
   mImageData_yuv (p_startSkinSmooth fp cv s e2)
     = Some (smooth_loops fp (the (mIntegralMatrix (snd r))) (the (mIntegralMatrixSqr (snd r)))
               (map (skin_byte cv) px) w h (smooth_radius fp w h) s Y) \<and>
   mImageData_yuv (p_startSkinSmooth fp cv s e2) = mImageData_yuv (p_startSkinSmooth fp cv s (snd r)) \<and>
   (smooth_in_range fp s \<longrightarrow>
      mImageData_yuv (snd (startSkinSmooth fp cv s e2)) = mImageData_yuv (p_startSkinSmooth fp cv s (snd r))) \<and>
   (1 \<le> iMin \<and> iMin \<le> iMax \<and> iMax < h \<and> 1 \<le> jMin \<and> jMin \<le> jMax \<and> jMax < w \<longrightarrow>
      sat_query (the (mIntegralMatrix e2)) w iMin jMin iMax jMax
        = rect_sum (y_u64 Y) (nat w) (nat iMin) (nat jMin) (nat iMax) (nat jMax) \<and>
      sat_query (the (mIntegralMatrixSqr e2)) w iMin jMin iMax jMax
        = rect_sum (y2_u64 Y) (nat w) (nat iMin) (nat jMin) (nat iMax) (nat jMax))"
proof -
  note st = init_success [OF assms(1-9), of cv e0, folded r_def]
  note cells = init_tables [OF assms(1-9), where cv = cv and e = e0, folded r_def]
  have y: "the (mImageData_yuv (snd r)) = Y" by (simp add: st(5) Y_def)
  note k = run_ops_effect_keeps [OF assms(10) st(2) st(11), of fp cv, folded e2_def]
  have f: "mImageData_rgb (snd (startWhiteSkin fp cv l e)) = mImageData_rgb e \<and>
   mSkinMatrix (snd (startWhiteSkin fp cv l e)) = mSkinMatrix e \<and>
   mIntegralMatrix (snd (startWhiteSkin fp cv l e)) = mIntegralMatrix e \<and>
   mIntegralMatrixSqr (snd (startWhiteSkin fp cv l e)) = mIntegralMatrixSqr e \<and>
   mImageData_rgb (snd (startSkinSmooth fp cv s e)) = mImageData_rgb e \<and>
   mSkinMatrix (snd (startSkinSmooth fp cv s e)) = mSkinMatrix e \<and>
   mIntegralMatrix (snd (startSkinSmooth fp cv s e)) = mIntegralMatrix e \<and>
   mIntegralMatrixSqr (snd (startSkinSmooth fp cv s e)) = mIntegralMatrixSqr e"
    by (simp add: startWhiteSkin_def startSkinSmooth_def p_startBeauty_keeps)
  have c1: "the (mIntegralMatrix (snd r)) ! (i * nat w + j) = prefix_sum (y_u64 Y) (nat w) i j"
    using cells(1) [OF assms(11,12)] by (simp only: y)
  have c2: "the (mIntegralMatrixSqr (snd r)) ! (i * nat w + j) = prefix_sum (y2_u64 Y) (nat w) i j"
    using cells(2) [OF assms(11,12)] by (simp only: y)
  have p2: "mImageData_yuv (p_startSkinSmooth fp cv s e2)
     = Some (smooth_loops fp (the (mIntegralMatrix (snd r))) (the (mIntegralMatrixSqr (snd r)))
               (map (skin_byte cv) px) w h (smooth_radius fp w h) s Y)"
    using p_startSkinSmooth_yuv [of e2 fp cv s] k by (simp add: st Y_def)
  have p1: "mImageData_yuv (p_startSkinSmooth fp cv s (snd r))
     = Some (smooth_loops fp (the (mIntegralMatrix (snd r))) (the (mIntegralMatrixSqr (snd r)))
               (map (skin_byte cv) px) w h (smooth_radius fp w h) s Y)"
    using p_startSkinSmooth_yuv [OF st(11), of fp cv s] by (simp add: st Y_def)
  have p3: "smooth_in_range fp s \<longrightarrow>
      mImageData_yuv (snd (startSkinSmooth fp cv s e2)) = mImageData_yuv (p_startSkinSmooth fp cv s (snd r))"
    using startSkinSmooth_yuv [of e2 fp s cv] k p1 p2 by simp
  have g: "mImageData_rgb e2 = Some px" "mSkinMatrix e2 = Some (map (skin_byte cv) px)"
    "mIntegralMatrix e2 = mIntegralMatrix (snd r)" "mIntegralMatrixSqr e2 = mIntegralMatrixSqr (snd r)"
    using k by (simp_all add: st)
  have wn: "int (nat w) = w" using isSizeSafe_bounds [OF assms(1)] by simp
  have q: "1 \<le> iMin \<and> iMin \<le> iMax \<and> iMax < h \<and> 1 \<le> jMin \<and> jMin \<le> jMax \<and> jMax < w \<longrightarrow>
      sat_query (the (mIntegralMatrix e2)) w iMin jMin iMax jMax
        = rect_sum (y_u64 Y) (nat w) (nat iMin) (nat jMin) (nat iMax) (nat jMax) \<and>
      sat_query (the (mIntegralMatrixSqr e2)) w iMin jMin iMax jMax
        = rect_sum (y2_u64 Y) (nat w) (nat iMin) (nat jMin) (nat iMax) (nat jMax)"
  proof (intro impI, elim conjE)
    assume b: "1 \<le> iMin" "iMin \<le> iMax" "iMax < h" "1 \<le> jMin" "jMin \<le> jMax" "jMax < w"
    have "sat_query (the (mIntegralMatrix (snd r))) (int (nat w)) iMin jMin iMax jMax
          = rect_sum (y_u64 Y) (nat w) (nat iMin) (nat jMin) (nat iMax) (nat jMax)"
      using b by (intro sat_query_rect [where h = "nat h"] cells(1) [unfolded y]) simp_all
    moreover have "sat_query (the (mIntegralMatrixSqr (snd r))) (int (nat w)) iMin jMin iMax jMax
          = rect_sum (y2_u64 Y) (nat w) (nat iMin) (nat jMin) (nat iMax) (nat jMax)"
      using b by (intro sat_query_rect [where h = "nat h"] cells(2) [unfolded y]) simp_all
    ultimately show "sat_query (the (mIntegralMatrix e2)) w iMin jMin iMax jMax
        = rect_sum (y_u64 Y) (nat w) (nat iMin) (nat jMin) (nat iMax) (nat jMax) \<and>
      sat_query (the (mIntegralMatrixSqr e2)) w iMin jMin iMax jMax
        = rect_sum (y2_u64 Y) (nat w) (nat iMin) (nat jMin) (nat iMax) (nat jMax)"
      unfolding wn g(3,4) by simp
  qed
  show ?thesis
    using f st(1,3,4,6) c1 c2 g p1 p2 p3 q by simp
qed

text \<open>
  The theorem on the 32 by 32 mid-gray image, with a whitening call at 2.0 and a
  smoothing call at 100 after initialize.
\<close>

theorem C9_init_data_immutable_witness:
  "isSizeSafe 32 32 \<and> length (replicate 1024 (0xFF808080 :: u32)) = nat (32 * 32) \<and>
   list_all is_effect [ApplyWhiten (2 :: real), ApplySmooth 100] \<and>
   mImageData_rgb (run_ops exact_fpu spec_lib [ApplyWhiten 2, ApplySmooth 100] gray32)
     = Some (replicate 1024 0xFF808080) \<and>
   mSkinMatrix (run_ops exact_fpu spec_lib [ApplyWhiten 2, ApplySmooth 100] gray32)
     = Some (map (skin_byte spec_lib) (replicate 1024 0xFF808080)) \<and>
   mIntegralMatrix (run_ops exact_fpu spec_lib [ApplyWhiten 2, ApplySmooth 100] gray32)
     = mIntegralMatrix gray32 \<and>
   the (mIntegralMatrix (run_ops exact_fpu spec_lib [ApplyWhiten 2, ApplySmooth 100] gray32)) ! (2 * nat 32 + 1)
     = prefix_sum (y_u64 (RGBToYCbCr spec_lib (replicate 1024 0xFF808080) (nat (32 * 32)))) (nat 32) 2 1 \<and>
   mImageData_yuv (p_startSkinSmooth exact_fpu spec_lib 100
                     (run_ops exact_fpu spec_lib [ApplyWhiten 2, ApplySmooth 100] gray32))
     = mImageData_yuv (p_startSkinSmooth exact_fpu spec_lib 100 gray32)"
proof -
  have l: "length (replicate 1024 (0xFF808080 :: u32)) = nat (32 * 32)" by simp
  have a: "all_ok 0" "all_ok 1" "all_ok 2" "all_ok 3" "all_ok 4" "all_ok 5" "all_ok 6"
    by (simp_all add: all_ok_def)
  have o: "list_all is_effect [ApplyWhiten (2 :: real), ApplySmooth 100]" by simp
  have b: "(2::nat) < nat 32" "(1::nat) < nat 32" by simp_all
  note t = C9_init_data_immutable [OF isSizeSafe_32 a l o b, where fp = exact_fpu and cv = spec_lib
      and l = 2 and e = gray32 and s = 100 and ?e0.0 = "MagicBeautify_ctor exact_fpu"
      and iMin = 1 and jMin = 1 and iMax = 2 and jMax = 2, folded gray32_is]
  show ?thesis
    using isSizeSafe_32 l o t by - (elim conjE, intro conjI; assumption)
qed






text \<open>
  C7. With \<^verbatim>\<open>logf(1.0f) == 0.0f\<close>, \<^verbatim>\<open>startWhiteSkin(1.0f)\<close> succeeds on an initialized
  engine and its whitening step writes nothing: the RGB copy is as before, and the
  output is what the smoothing step of \<^verbatim>\<open>_startBeauty\<close>, which comes first, leaves. That
  is the output as it was before the call when the stored smooth level fails the
  range check, and the output of the smoothing pass at the stored level otherwise. So
  the output equals the RGB copy after the call when it did before the call and the
  stored smooth level fails the range check.
\<close>

theorem C7_whiten_one_is_no_whitening:
  assumes "mInitialized e" and "log_is_zero fp (f_lit fp 1)"
  shows "fst (startWhiteSkin fp cv (f_lit fp 1) e) = BEAUTY_SUCCESS \<and>
         mImageData_rgb (snd (startWhiteSkin fp cv (f_lit fp 1) e)) = mImageData_rgb e \<and>
         storedBitmapPixels (snd (startWhiteSkin fp cv (f_lit fp 1) e))
           = storedBitmapPixels (if smooth_in_range fp (mSmoothLevel e)
                                 then p_startSkinSmooth fp cv (mSmoothLevel e) e else e) \<and>
         (\<not> smooth_in_range fp (mSmoothLevel e) \<longrightarrow>
            storedBitmapPixels (snd (startWhiteSkin fp cv (f_lit fp 1) e)) = storedBitmapPixels e) \<and>
         (\<not> smooth_in_range fp (mSmoothLevel e) \<and> storedBitmapPixels e = mImageData_rgb e \<longrightarrow>
            storedBitmapPixels (snd (startWhiteSkin fp cv (f_lit fp 1) e))
              = mImageData_rgb (snd (startWhiteSkin fp cv (f_lit fp 1) e)))"
  using p_startBeauty_run(1,3) [OF assms(1), of fp cv "mSmoothLevel e" "f_lit fp 1"]
    p_startBeauty_out_not_whitened [OF assms(1), of fp "f_lit fp 1" cv "mSmoothLevel e"] assms(2)
  by (simp add: startWhiteSkin_def)

theorem C7_whiten_one_witness:
  "mInitialized gray32 \<and> log_is_zero exact_fpu (f_lit exact_fpu 1) \<and>
   fst (startWhiteSkin exact_fpu spec_lib (f_lit exact_fpu 1) gray32) = BEAUTY_SUCCESS \<and>
   storedBitmapPixels (snd (startWhiteSkin exact_fpu spec_lib (f_lit exact_fpu 1) gray32))
     = mImageData_rgb (snd (startWhiteSkin exact_fpu spec_lib (f_lit exact_fpu 1) gray32))"
proof -
  note g = gray32_facts(1)
  have z: "log_is_zero exact_fpu (f_lit exact_fpu 1)"
    by (simp add: log_is_zero_def exact_fpu_def)
  have s: "\<not> smooth_in_range exact_fpu (mSmoothLevel gray32)"
    by (simp add: gray32_facts exact_in_range)
  have o: "storedBitmapPixels gray32 = mImageData_rgb gray32"
    by (simp add: gray32_facts)
  show ?thesis
    using g z s o C7_whiten_one_is_no_whitening [OF g z, of spec_lib]
    by simp
qed

end
